theory Spec2Isabelle
  imports Complex_Main
begin

section \<open>Python values, errors and results\<close>

text \<open>
  The Python exceptions that the modelled code can raise.  \<open>HookError\<close> stands for any
  exception raised inside a user-supplied Hamiltonian builder or inside the external
  fixed-system solver; \<open>NanResult\<close> marks the one place where numpy hands back
  \<open>nan\<close> as a result (the mean of an empty list), a value the reals that stand for the
  results of the fidelity methods do not have.
\<close>

datatype error =
    NotImplementedError
  | AttributeError
  | ArithmeticError
  | IndexError
  | ValueError
  | HookError string
  | NanResult

text \<open>
  An attribute of a Python object: never assigned (reading it raises
  \<open>AttributeError\<close>), assigned \<open>None\<close>, or assigned a value.
\<close>

datatype 'a attr = Unset | PyNone | Val 'a

type_synonym matrix = "complex list list"

text \<open>
  A Python float as the cache key of \<open>ParametricSystemBase\<close> holds and compares it: a
  number, or \<open>nan\<close>.  (The two infinities compare like numbers and are not set apart.)
\<close>

datatype pyfloat = Num real | NaN

text \<open>
  \<open>x == y\<close> on two floats, which is also what numpy applies entry by entry:
  \<open>nan\<close> equals nothing, not even itself.  \<open>x != y\<close> is the negation.
\<close>

fun float_eq :: "pyfloat \<Rightarrow> pyfloat \<Rightarrow> bool" where
  "float_eq (Num x) (Num y) = (x = y)"
| "float_eq NaN y = False"
| "float_eq (Num x) NaN = False"

text \<open>
  A control argument as \<open>u\<close>/\<open>du\<close> can receive it: a one-dimensional
  \<open>numpy.ndarray\<close> of floats, or a plain Python sequence of floats (which is not an
  instance of \<open>numpy.ndarray\<close>).
\<close>

datatype controls = NdArray "pyfloat list" | PySeq "pyfloat list"

fun entries :: "controls \<Rightarrow> pyfloat list" where
  "entries (NdArray xs) = xs"
| "entries (PySeq xs) = xs"

fun isinstance_ndarray :: "controls \<Rightarrow> bool" where
  "isinstance_ndarray (NdArray xs) = True"
| "isinstance_ndarray (PySeq xs) = False"

text \<open>
  \<open>numpy.array_equal(a1, a2)\<close>: both arguments are converted to arrays; the result is
  true when the shapes agree and \<open>a1 == a2\<close> holds at every entry.  \<open>None\<close>
  becomes a zero-dimensional object array and never equals an array of numbers.
\<close>

fun array_equal :: "controls attr \<Rightarrow> controls \<Rightarrow> bool" where
  "array_equal (Val a) b = list_all2 float_eq (entries a) (entries b)"
| "array_equal PyNone b = False"
| "array_equal Unset b = False"

section \<open>systems/parametric\_system.py\<close>

text \<open>
  The object built by \<open>fs.FixedSystem(hf, dhf, nz, omega, t)\<close>, as far as
  \<open>ParametricSystemBase\<close> reads it: \<open>.u\<close>, \<open>.du\<close> and \<open>.params.nz\<close>.
\<close>

record fixed_system =
  fs_u :: matrix
  fs_du :: "matrix list"
  fs_nz :: int

text \<open>
  The attributes of a \<open>ParametricSystemBase\<close> instance.  \<open>nz\<close> and \<open>omega\<close> are the
  attributes every subclass has to set.  The last three fields are instrumentation: they
  count the calls of \<open>_hf\<close>, of \<open>_dhf\<close> and of \<open>fs.FixedSystem\<close>.
  \<open>_last_controls\<close> holds the controls by value; the code keeps a reference to the
  caller's array, so a caller that overwrites that array in place is not covered here.
\<close>

record psys =
  last_controls :: "controls attr"
  last_t :: "pyfloat attr"
  fixed_system :: "fixed_system option"
  nz :: int
  omega :: real
  hf_calls :: nat
  dhf_calls :: nat
  solver_calls :: nat

text \<open>
  What a subclass supplies: the two Hamiltonian builders \<open>_hf(self, controls)\<close> and
  \<open>_dhf(self, controls)\<close>, which read the instance and may raise.

  Modelled from the spec: the external fixed-system solver \<open>fs.FixedSystem\<close> (module
  \<open>core/fixed_system.py\<close> is not among the sources).  It receives the two
  Fourier-coefficient tensors, the held mode-truncation count, the angular frequency and
  the duration, and either raises or yields the propagator, its derivative and the
  (possibly adapted) mode-truncation count.
\<close>

record sys_class =
  hf_meth :: "psys \<Rightarrow> controls \<Rightarrow> error + matrix list"
  dhf_meth :: "psys \<Rightarrow> controls \<Rightarrow> error + matrix list list"
  FixedSystem :: "matrix list \<Rightarrow> matrix list list \<Rightarrow> int \<Rightarrow> real \<Rightarrow> pyfloat \<Rightarrow> error + fixed_system"

text \<open>\<open>ParametricSystemBase.__init__\<close>\<close>

definition ParametricSystemBase_init :: "psys \<Rightarrow> psys" where
  "ParametricSystemBase_init s = s\<lparr>last_controls := PyNone, last_t := PyNone\<rparr>"

text \<open>\<open>ParametricSystemBase._hf\<close> and \<open>ParametricSystemBase._dhf\<close>\<close>

definition ParametricSystemBase_hf :: "psys \<Rightarrow> controls \<Rightarrow> error + matrix list" where
  "ParametricSystemBase_hf s c = Inl NotImplementedError"

definition ParametricSystemBase_dhf :: "psys \<Rightarrow> controls \<Rightarrow> error + matrix list list" where
  "ParametricSystemBase_dhf s c = Inl NotImplementedError"

text \<open>
  \<open>ParametricSystemBase._is_cached\<close>.  The attribute reads \<open>self._last_t\<close> and
  \<open>self._last_controls\<close> raise when the attribute was never assigned;
  \<open>self._last_t != t\<close> is true when the attribute holds \<open>None\<close>, and when either
  side is \<open>nan\<close>.
\<close>

definition is_cached :: "psys \<Rightarrow> controls \<Rightarrow> pyfloat \<Rightarrow> error + bool" where
  "is_cached s c t =
     (if \<not> isinstance_ndarray c then Inr False
      else case last_t s of
             Unset \<Rightarrow> Inl AttributeError
           | PyNone \<Rightarrow> Inr False
           | Val t' \<Rightarrow>
               if \<not> float_eq t' t then Inr False
               else (case last_controls s of
                       Unset \<Rightarrow> Inl AttributeError
                     | lc \<Rightarrow> Inr (array_equal lc c)))"

text \<open>
  \<open>ParametricSystemBase._set_cached\<close>.  The two key attributes are assigned first; an
  exception raised afterwards leaves them assigned.
\<close>

definition set_cached :: "sys_class \<Rightarrow> psys \<Rightarrow> controls \<Rightarrow> pyfloat \<Rightarrow> (error + unit) \<times> psys" where
  "set_cached C s c t =
     (let s1 = s\<lparr>last_controls := Val c, last_t := Val t\<rparr>;
          s2 = s1\<lparr>hf_calls := hf_calls s1 + 1\<rparr>
      in case hf_meth C s1 c of
           Inl e \<Rightarrow> (Inl e, s2)
         | Inr hf \<Rightarrow>
             (let s3 = s2\<lparr>dhf_calls := dhf_calls s2 + 1\<rparr>
              in case dhf_meth C s1 c of
                   Inl e \<Rightarrow> (Inl e, s3)
                 | Inr dhf \<Rightarrow>
                     (let s4 = s3\<lparr>solver_calls := solver_calls s3 + 1\<rparr>
                      in case FixedSystem C hf dhf (nz s1) (omega s1) t of
                           Inl e \<Rightarrow> (Inl e, s4)
                         | Inr fs \<Rightarrow> (Inr (), s4\<lparr>fixed_system := Some fs\<rparr>))))"

text \<open>\<open>ParametricSystemBase.u\<close>\<close>

definition ParametricSystemBase_u :: "sys_class \<Rightarrow> psys \<Rightarrow> controls \<Rightarrow> pyfloat \<Rightarrow> (error + matrix) \<times> psys" where
  "ParametricSystemBase_u C s c t =
     (case is_cached s c t of
        Inl e \<Rightarrow> (Inl e, s)
      | Inr True \<Rightarrow>
          (case fixed_system s of
             None \<Rightarrow> (Inl AttributeError, s)
           | Some fs \<Rightarrow> (Inr (fs_u fs), s))
      | Inr False \<Rightarrow>
          (case set_cached C s c t of
             (Inl e, s') \<Rightarrow> (Inl e, s')
           | (Inr _, s') \<Rightarrow>
               (case fixed_system s' of
                  None \<Rightarrow> (Inl AttributeError, s')
                | Some fs \<Rightarrow> (Inr (fs_u fs), s'\<lparr>nz := fs_nz fs\<rparr>))))"

text \<open>\<open>ParametricSystemBase.du\<close>\<close>

definition ParametricSystemBase_du :: "sys_class \<Rightarrow> psys \<Rightarrow> controls \<Rightarrow> pyfloat \<Rightarrow> (error + matrix list) \<times> psys" where
  "ParametricSystemBase_du C s c t =
     (case is_cached s c t of
        Inl e \<Rightarrow> (Inl e, s)
      | Inr True \<Rightarrow>
          (case fixed_system s of
             None \<Rightarrow> (Inl AttributeError, s)
           | Some fs \<Rightarrow> (Inr (fs_du fs), s))
      | Inr False \<Rightarrow>
          (case set_cached C s c t of
             (Inl e, s') \<Rightarrow> (Inl e, s')
           | (Inr _, s') \<Rightarrow>
               (case fixed_system s' of
                  None \<Rightarrow> (Inl AttributeError, s')
                | Some fs \<Rightarrow> (Inr (fs_du fs), s'\<lparr>nz := fs_nz fs\<rparr>))))"

text \<open>
  A Python object on which no \<open>__init__\<close> has run yet, with the counters at zero.  The
  fields \<open>nz\<close> and \<open>omega\<close> hold placeholders until a constructor assigns them.
\<close>

definition new_object :: psys where
  "new_object = \<lparr>last_controls = Unset, last_t = Unset, fixed_system = None,
                  nz = 0, omega = 0, hf_calls = 0, dhf_calls = 0, solver_calls = 0\<rparr>"

text \<open>
  \<open>ParametricSystemWithFunctions.__init__\<close>: it assigns \<open>hf\<close>, \<open>dhf\<close>, \<open>omega\<close>,
  \<open>nz\<close> and \<open>parameters\<close>, and does not call \<open>ParametricSystemBase.__init__\<close>.
  The callables and \<open>parameters\<close> are never reassigned, so they live in the class
  record built by \<open>ParametricSystemWithFunctions_class\<close>.
\<close>

definition ParametricSystemWithFunctions_init :: "int \<Rightarrow> real \<Rightarrow> psys" where
  "ParametricSystemWithFunctions_init n w = new_object\<lparr>omega := w, nz := n\<rparr>"

text \<open>\<open>ParametricSystemWithFunctions._hf\<close> and \<open>._dhf\<close>\<close>

definition ParametricSystemWithFunctions_class ::
  "(controls \<Rightarrow> 'p \<Rightarrow> real \<Rightarrow> error + matrix list) \<Rightarrow>
   (controls \<Rightarrow> 'p \<Rightarrow> real \<Rightarrow> error + matrix list list) \<Rightarrow> 'p \<Rightarrow>
   (matrix list \<Rightarrow> matrix list list \<Rightarrow> int \<Rightarrow> real \<Rightarrow> pyfloat \<Rightarrow> error + fixed_system) \<Rightarrow> sys_class" where
  "ParametricSystemWithFunctions_class hf dhf parameters solver =
     \<lparr>hf_meth = (\<lambda>s c. hf c parameters (omega s)),
      dhf_meth = (\<lambda>s c. dhf c parameters (omega s)),
      FixedSystem = solver\<rparr>"

section \<open>optimization/fidelity.py\<close>

text \<open>
  A number as the fidelity methods pass it around: a Python float, or a one-dimensional
  \<open>numpy.ndarray\<close> of floats (a gradient).
\<close>

datatype pynum = Scalar real | Array "real list"

text \<open>
  \<open>a + b\<close> on such numbers, with numpy's broadcasting: a float is added to every entry
  of an array; two arrays need equal lengths, or one of them has length one.
\<close>

fun py_add :: "pynum \<Rightarrow> pynum \<Rightarrow> error + pynum" where
  "py_add (Scalar a) (Scalar b) = Inr (Scalar (a + b))"
| "py_add (Scalar a) (Array ys) = Inr (Array (map (\<lambda>y. a + y) ys))"
| "py_add (Array xs) (Scalar b) = Inr (Array (map (\<lambda>x. x + b) xs))"
| "py_add (Array xs) (Array ys) =
     (if length xs = length ys then Inr (Array (map2 (+) xs ys))
      else if length xs = 1 then Inr (Array (map (\<lambda>y. hd xs + y) ys))
      else if length ys = 1 then Inr (Array (map (\<lambda>x. x + hd ys) xs))
      else Inl ValueError)"

text \<open>
  The attributes every \<open>FidelityBase\<close> instance has; subclasses extend the record.
\<close>

record 'sys fidelity_state =
  system :: 'sys
  last_controls_and_t :: "controls attr"
  iterations :: int

text \<open>
  A class below \<open>FidelityBase\<close>: for each overridable method either \<open>None\<close> (the
  class inherits the method of \<open>FidelityBase\<close>) or the overriding method.  A method
  takes the instance and the argument and returns the value or the exception, together
  with the instance as the call left it.
\<close>

type_synonym ('s, 'v) meth = "'s \<Rightarrow> controls \<Rightarrow> (error + 'v) \<times> 's"

record 's fidelity_class =
  f_override :: "('s, pynum) meth option"
  df_override :: "('s, pynum) meth option"
  core_f_override :: "('s, pynum) meth option"
  core_df_override :: "('s, pynum) meth option"
  iterate_hook_override :: "('s, unit) meth option"
  penalty_override :: "('s, pynum) meth option"
  d_penalty_override :: "('s, pynum) meth option"

text \<open>\<open>FidelityBase.__init__\<close>\<close>

definition FidelityBase_init ::
  "'sys \<Rightarrow> ('sys, 'z) fidelity_state_scheme \<Rightarrow> ('sys, 'z) fidelity_state_scheme" where
  "FidelityBase_init sys s = s\<lparr>system := sys, last_controls_and_t := PyNone, iterations := 0\<rparr>"

text \<open>\<open>FidelityBase._f\<close>, \<open>._df\<close>, \<open>._iterate\<close>, \<open>.penalty\<close>, \<open>.d_penalty\<close>\<close>

definition FidelityBase_core_f :: "('s, pynum) meth" where
  "FidelityBase_core_f s x = (Inl NotImplementedError, s)"

definition FidelityBase_core_df :: "('s, pynum) meth" where
  "FidelityBase_core_df s x = (Inl NotImplementedError, s)"

definition FidelityBase_iterate_hook :: "('s, unit) meth" where
  "FidelityBase_iterate_hook s x = (Inr (), s)"

definition FidelityBase_penalty :: "('s, pynum) meth" where
  "FidelityBase_penalty s x = (Inr (Scalar 0), s)"

definition FidelityBase_d_penalty :: "('s, pynum) meth" where
  "FidelityBase_d_penalty s x = (Inr (Scalar 0), s)"

text \<open>Method lookup for \<open>self._f\<close>, \<open>self._df\<close>, \<open>self._iterate\<close>, \<open>self.penalty\<close>, \<open>self.d_penalty\<close>.\<close>

definition call_core_f :: "'s fidelity_class \<Rightarrow> ('s, pynum) meth" where
  "call_core_f K = (case core_f_override K of None \<Rightarrow> FidelityBase_core_f | Some g \<Rightarrow> g)"

definition call_core_df :: "'s fidelity_class \<Rightarrow> ('s, pynum) meth" where
  "call_core_df K = (case core_df_override K of None \<Rightarrow> FidelityBase_core_df | Some g \<Rightarrow> g)"

definition call_iterate_hook :: "'s fidelity_class \<Rightarrow> ('s, unit) meth" where
  "call_iterate_hook K = (case iterate_hook_override K of None \<Rightarrow> FidelityBase_iterate_hook | Some g \<Rightarrow> g)"

definition call_penalty :: "'s fidelity_class \<Rightarrow> ('s, pynum) meth" where
  "call_penalty K = (case penalty_override K of None \<Rightarrow> FidelityBase_penalty | Some g \<Rightarrow> g)"

definition call_d_penalty :: "'s fidelity_class \<Rightarrow> ('s, pynum) meth" where
  "call_d_penalty K = (case d_penalty_override K of None \<Rightarrow> FidelityBase_d_penalty | Some g \<Rightarrow> g)"

text \<open>
  \<open>FidelityBase.f\<close> and \<open>FidelityBase.df\<close>: the left operand of \<open>+\<close> is evaluated
  first, and an exception in it skips the right one.
\<close>

definition FidelityBase_f :: "'s fidelity_class \<Rightarrow> ('s, pynum) meth" where
  "FidelityBase_f K s x =
     (case call_core_f K s x of
        (Inl e, s1) \<Rightarrow> (Inl e, s1)
      | (Inr a, s1) \<Rightarrow>
          (case call_penalty K s1 x of
             (Inl e, s2) \<Rightarrow> (Inl e, s2)
           | (Inr b, s2) \<Rightarrow> (py_add a b, s2)))"

definition FidelityBase_df :: "'s fidelity_class \<Rightarrow> ('s, pynum) meth" where
  "FidelityBase_df K s x =
     (case call_core_df K s x of
        (Inl e, s1) \<Rightarrow> (Inl e, s1)
      | (Inr a, s1) \<Rightarrow>
          (case call_d_penalty K s1 x of
             (Inl e, s2) \<Rightarrow> (Inl e, s2)
           | (Inr b, s2) \<Rightarrow> (py_add a b, s2)))"

text \<open>Method lookup for \<open>self.f\<close> and \<open>self.df\<close>.\<close>

definition call_f :: "'s fidelity_class \<Rightarrow> ('s, pynum) meth" where
  "call_f K = (case f_override K of None \<Rightarrow> FidelityBase_f K | Some g \<Rightarrow> g)"

definition call_df :: "'s fidelity_class \<Rightarrow> ('s, pynum) meth" where
  "call_df K = (case df_override K of None \<Rightarrow> FidelityBase_df K | Some g \<Rightarrow> g)"

text \<open>\<open>FidelityBase.iterate\<close>; the value of \<open>self.f\<close> is dropped.\<close>

definition FidelityBase_iterate ::
  "('sys, 'z) fidelity_state_scheme fidelity_class \<Rightarrow> (('sys, 'z) fidelity_state_scheme, unit) meth" where
  "FidelityBase_iterate K s x =
     (let s1 = s\<lparr>iterations := iterations s + 1\<rparr>
      in case call_iterate_hook K s1 x of
           (Inl e, s2) \<Rightarrow> (Inl e, s2)
         | (Inr _, s2) \<Rightarrow>
             (case call_f K s2 x of
                (Inl e, s3) \<Rightarrow> (Inl e, s3)
              | (Inr _, s3) \<Rightarrow> (Inr (), s3)))"

text \<open>\<open>FidelityBase.reset_iterations\<close>\<close>

definition FidelityBase_reset_iterations ::
  "('sys, 'z) fidelity_state_scheme \<Rightarrow> ('sys, 'z) fidelity_state_scheme" where
  "FidelityBase_reset_iterations s = s\<lparr>iterations := 0\<rparr>"

text \<open>The class \<open>FidelityBase\<close> itself overrides nothing.\<close>

definition FidelityBase_class :: "'s fidelity_class" where
  "FidelityBase_class =
     \<lparr>f_override = None, df_override = None, core_f_override = None, core_df_override = None,
      iterate_hook_override = None, penalty_override = None, d_penalty_override = None\<rparr>"

subsection \<open>OperatorDistance\<close>

record operator_distance = "psys fidelity_state" +
  od_t :: pyfloat
  od_target :: matrix

text \<open>
  \<open>OperatorDistance.f\<close> and \<open>OperatorDistance.df\<close>.  \<open>operator_distance\<close> and
  \<open>d_operator_distance\<close> come from \<open>core/fidelities.py\<close>, which is not among the
  sources; they are the parameters \<open>distance\<close> and \<open>d_distance\<close>.  \<open>C\<close> is the class of
  \<open>self.system\<close>.
\<close>

definition OperatorDistance_f ::
  "sys_class \<Rightarrow> (matrix \<Rightarrow> matrix \<Rightarrow> real) \<Rightarrow> (operator_distance, pynum) meth" where
  "OperatorDistance_f C distance s x =
     (case ParametricSystemBase_u C (system s) x (od_t s) of
        (Inl e, sys1) \<Rightarrow> (Inl e, s\<lparr>system := sys1\<rparr>)
      | (Inr u, sys1) \<Rightarrow> (Inr (Scalar (distance u (od_target s))), s\<lparr>system := sys1\<rparr>))"

definition OperatorDistance_df ::
  "sys_class \<Rightarrow> (matrix \<Rightarrow> matrix list \<Rightarrow> matrix \<Rightarrow> real list) \<Rightarrow> (operator_distance, pynum) meth" where
  "OperatorDistance_df C d_distance s x =
     (case ParametricSystemBase_u C (system s) x (od_t s) of
        (Inl e, sys1) \<Rightarrow> (Inl e, s\<lparr>system := sys1\<rparr>)
      | (Inr u, sys1) \<Rightarrow>
          (case ParametricSystemBase_du C sys1 x (od_t s) of
             (Inl e, sys2) \<Rightarrow> (Inl e, s\<lparr>system := sys2\<rparr>)
           | (Inr du, sys2) \<Rightarrow> (Inr (Array (d_distance u du (od_target s))), s\<lparr>system := sys2\<rparr>)))"

text \<open>\<open>OperatorDistance.__init__\<close>\<close>

definition OperatorDistance_init :: "psys \<Rightarrow> pyfloat \<Rightarrow> matrix \<Rightarrow> operator_distance" where
  "OperatorDistance_init sys t target =
     \<lparr>system = sys, last_controls_and_t = PyNone, iterations = 0, od_t = t, od_target = target\<rparr>"

text \<open>The class \<open>OperatorDistance\<close> overrides \<open>f\<close> and \<open>df\<close> and nothing else.\<close>

definition OperatorDistance_class ::
  "sys_class \<Rightarrow> (matrix \<Rightarrow> matrix \<Rightarrow> real) \<Rightarrow> (matrix \<Rightarrow> matrix list \<Rightarrow> matrix \<Rightarrow> real list) \<Rightarrow>
   operator_distance fidelity_class" where
  "OperatorDistance_class C distance d_distance =
     \<lparr>f_override = Some (OperatorDistance_f C distance), df_override = Some (OperatorDistance_df C d_distance),
      core_f_override = None, core_df_override = None,
      iterate_hook_override = None, penalty_override = None, d_penalty_override = None\<rparr>"

subsection \<open>EnsembleFidelity\<close>

record ('e, 'm) ensemble_fidelity = "'e fidelity_state" +
  fidelities :: "'m list"

text \<open>
  The list comprehension \<open>[fid.f(x) for fid in self.fidelities]\<close>: the members are
  called in order, each on its own state; the first exception ends the comprehension.
\<close>

fun comprehension :: "('m, 'v) meth \<Rightarrow> 'm list \<Rightarrow> controls \<Rightarrow> (error + 'v list) \<times> 'm list" where
  "comprehension g [] x = (Inr [], [])"
| "comprehension g (m # ms) x =
     (case g m x of
        (Inl e, m1) \<Rightarrow> (Inl e, m1 # ms)
      | (Inr v, m1) \<Rightarrow>
          (case comprehension g ms x of
             (Inl e, ms1) \<Rightarrow> (Inl e, m1 # ms1)
           | (Inr vs, ms1) \<Rightarrow> (Inr (v # vs), m1 # ms1)))"

fun scalars_of :: "pynum list \<Rightarrow> real list option" where
  "scalars_of [] = Some []"
| "scalars_of (Scalar a # vs) = map_option (\<lambda>as. a # as) (scalars_of vs)"
| "scalars_of (Array xs # vs) = None"

fun arrays_of :: "pynum list \<Rightarrow> real list list option" where
  "arrays_of [] = Some []"
| "arrays_of (Array xs # vs) = map_option (\<lambda>rows. xs # rows) (arrays_of vs)"
| "arrays_of (Scalar a # vs) = None"

definition same_length :: "'a list list \<Rightarrow> bool" where
  "same_length rows = list_all (\<lambda>r. length r = length (hd rows)) rows"

text \<open>
  \<open>numpy.mean(vs)\<close> of a Python list: the mean over all entries of the array the list
  converts to.  A list of floats is a one-dimensional array, a list of equally long
  arrays a two-dimensional one; any other list does not convert to a numeric array.
  The mean of no entries is \<open>nan\<close>.
\<close>

definition np_mean :: "pynum list \<Rightarrow> error + pynum" where
  "np_mean vs =
     (case scalars_of vs of
        Some as \<Rightarrow> (if as = [] then Inl NanResult else Inr (Scalar (sum_list as / real (length as))))
      | None \<Rightarrow>
          (case arrays_of vs of
             Some rows \<Rightarrow>
               (if \<not> same_length rows then Inl ValueError
                else if concat rows = [] then Inl NanResult
                else Inr (Scalar (sum_list (concat rows) / real (length (concat rows)))))
           | None \<Rightarrow> Inl ValueError))"

text \<open>
  \<open>numpy.mean(vs, axis=0)\<close>: the mean across the list, entry by entry.
\<close>

definition np_mean_axis0 :: "pynum list \<Rightarrow> error + pynum" where
  "np_mean_axis0 vs =
     (case scalars_of vs of
        Some as \<Rightarrow> (if as = [] then Inl NanResult else Inr (Scalar (sum_list as / real (length as))))
      | None \<Rightarrow>
          (case arrays_of vs of
             Some rows \<Rightarrow>
               (if \<not> same_length rows then Inl ValueError
                else Inr (Array (map (\<lambda>k. sum_list (map (\<lambda>r. r ! k) rows) / real (length rows))
                                     [0..<length (hd rows)])))
           | None \<Rightarrow> Inl ValueError))"

text \<open>
  \<open>EnsembleFidelity._f\<close> and \<open>EnsembleFidelity._df\<close>; \<open>M\<close> is the class of the
  members (the argument \<open>fidelity\<close> of the constructor).
\<close>

definition EnsembleFidelity_core_f ::
  "'m fidelity_class \<Rightarrow> (('e, 'm) ensemble_fidelity, pynum) meth" where
  "EnsembleFidelity_core_f M s x =
     (case comprehension (call_f M) (fidelities s) x of
        (Inl e, ms) \<Rightarrow> (Inl e, s\<lparr>fidelities := ms\<rparr>)
      | (Inr vs, ms) \<Rightarrow> (np_mean vs, s\<lparr>fidelities := ms\<rparr>))"

definition EnsembleFidelity_core_df ::
  "'m fidelity_class \<Rightarrow> (('e, 'm) ensemble_fidelity, pynum) meth" where
  "EnsembleFidelity_core_df M s x =
     (case comprehension (call_df M) (fidelities s) x of
        (Inl e, ms) \<Rightarrow> (Inl e, s\<lparr>fidelities := ms\<rparr>)
      | (Inr vs, ms) \<Rightarrow> (np_mean_axis0 vs, s\<lparr>fidelities := ms\<rparr>))"

text \<open>\<open>EnsembleFidelity.__init__\<close>; \<open>mk\<close> is \<open>fidelity(sys, **params)\<close>.\<close>

definition EnsembleFidelity_init :: "'e \<Rightarrow> ('e \<Rightarrow> 'sy list) \<Rightarrow> ('sy \<Rightarrow> 'm) \<Rightarrow> ('e, 'm) ensemble_fidelity" where
  "EnsembleFidelity_init ensemble systems mk =
     \<lparr>system = ensemble, last_controls_and_t = PyNone, iterations = 0,
      fidelities = map mk (systems ensemble)\<rparr>"

definition EnsembleFidelity_class :: "'m fidelity_class \<Rightarrow> ('e, 'm) ensemble_fidelity fidelity_class" where
  "EnsembleFidelity_class M =
     \<lparr>f_override = None, df_override = None,
      core_f_override = Some (EnsembleFidelity_core_f M),
      core_df_override = Some (EnsembleFidelity_core_df M),
      iterate_hook_override = None, penalty_override = None, d_penalty_override = None\<rparr>"

section \<open>helpers/matrix.py\<close>

text \<open>
  A two-dimensional array is the list of its rows, all of one length; \<open>[]\<close> is the
  array of shape \<open>(0, 0)\<close>.
\<close>

definition ncols :: "'a list list \<Rightarrow> nat" where
  "ncols m = (case m of [] \<Rightarrow> 0 | r # rs \<Rightarrow> length r)"

text \<open>\<open>adjoint(m)\<close>, that is \<open>np.transpose(np.conj(m))\<close>, and also \<open>np.mat(m).H\<close>\<close>

definition adjoint :: "matrix \<Rightarrow> matrix" where
  "adjoint m = map (\<lambda>j. map (\<lambda>i. cnj (m ! i ! j)) [0..<length m]) [0..<ncols m]"

text \<open>The product \<open>a * b\<close> of two \<open>numpy.matrix\<close> objects.\<close>

definition mat_mul :: "matrix \<Rightarrow> matrix \<Rightarrow> matrix" where
  "mat_mul a b =
     map (\<lambda>i. map (\<lambda>j. sum_list (map (\<lambda>k. a ! i ! k * b ! k ! j) [0..<length b])) [0..<ncols b])
         [0..<length a]"

text \<open>\<open>np.eye(n)\<close>\<close>

definition eye :: "nat \<Rightarrow> matrix" where
  "eye n = map (\<lambda>i. map (\<lambda>j. if i = j then 1 else 0) [0..<n]) [0..<n]"

text \<open>
  \<open>numpy.allclose(a, b, atol=atol)\<close> with the relative tolerance left at numpy's
  default \<open>rtol = 1e-05\<close>: every entry has to satisfy
  \<open>|a - b| \<le> atol + rtol * |b|\<close>.  The two arrays are broadcast against each other: along
  each axis the extents agree or one of them is one; otherwise numpy raises
  \<open>ValueError\<close>.
\<close>

definition rtol_default :: real where
  "rtol_default = 1 / 100000"

definition isclose :: "complex \<Rightarrow> complex \<Rightarrow> real \<Rightarrow> bool" where
  "isclose a b atol = (cmod (a - b) \<le> atol + rtol_default * cmod b)"

definition broadcast_dim :: "nat \<Rightarrow> nat \<Rightarrow> nat option" where
  "broadcast_dim m n = (if m = n then Some m else if m = 1 then Some n else if n = 1 then Some m else None)"

definition np_allclose :: "matrix \<Rightarrow> matrix \<Rightarrow> real \<Rightarrow> error + bool" where
  "np_allclose a b atol =
     (case (broadcast_dim (length a) (length b), broadcast_dim (ncols a) (ncols b)) of
        (Some r, Some c) \<Rightarrow>
          Inr (list_all (\<lambda>i. list_all (\<lambda>j.
                 isclose (a ! (if length a = 1 then 0 else i) ! (if ncols a = 1 then 0 else j))
                         (b ! (if length b = 1 then 0 else i) ! (if ncols b = 1 then 0 else j)) atol)
                 [0..<c]) [0..<r])
      | _ \<Rightarrow> Inl ValueError)"

text \<open>\<open>is_unitary(u, tolerance)\<close>, and the call with the default \<open>tolerance=1e-10\<close>\<close>

definition is_unitary :: "matrix \<Rightarrow> real \<Rightarrow> error + bool" where
  "is_unitary u tolerance =
     (let unitary = eye (length u);
          umat = u;
          product = mat_mul (adjoint umat) umat
      in np_allclose product unitary tolerance)"

definition is_unitary_default :: "matrix \<Rightarrow> error + bool" where
  "is_unitary_default u = is_unitary u (1 / 10 ^ 10)"

text \<open>
  \<open>product(a, b)\<close>, that is \<open>np.conj(a).dot(b)\<close>, for two one-dimensional arrays of
  one length (two rows of an array), and \<open>norm(a)\<close>.
\<close>

definition product_v :: "complex list \<Rightarrow> complex list \<Rightarrow> complex" where
  "product_v a b = sum_list (map2 (\<lambda>x y. cnj x * y) a b)"

definition norm_v :: "complex list \<Rightarrow> complex" where
  "norm_v a = csqrt (product_v a a)"

text \<open>The array arithmetic of \<open>gram_schmidt\<close>: \<open>q - w\<close>, \<open>c * w\<close> and \<open>q / c\<close>.\<close>

definition vsub :: "complex list \<Rightarrow> complex list \<Rightarrow> complex list" where
  "vsub q w = map2 (\<lambda>x y. x - y) q w"

definition smult :: "complex \<Rightarrow> complex list \<Rightarrow> complex list" where
  "smult c w = map (\<lambda>y. c * y) w"

definition sdiv :: "complex list \<Rightarrow> complex \<Rightarrow> complex list" where
  "sdiv q c = map (\<lambda>x. x / c) q"

text \<open>\<open>np.zeros_like(vecs)\<close>\<close>

definition zeros_like :: "matrix \<Rightarrow> matrix" where
  "zeros_like vecs = map (map (\<lambda>x. 0)) vecs"

text \<open>
  The inner loop of \<open>gram_schmidt\<close>, \<open>for i in xrange(j)\<close>, started with \<open>q = vecs[j]\<close>.
\<close>

definition gs_inner :: "matrix \<Rightarrow> nat \<Rightarrow> complex list \<Rightarrow> complex list" where
  "gs_inner result j q0 =
     fold (\<lambda>i q. let rij = product_v (result ! i) q in vsub q (smult rij (result ! i))) [0..<j] q0"

text \<open>
  The outer loop, \<open>for j in xrange(1, n)\<close>, over the indices still to come; a residual
  of norm zero raises.
\<close>

fun gs_outer :: "matrix \<Rightarrow> nat list \<Rightarrow> matrix \<Rightarrow> error + matrix" where
  "gs_outer vecs [] result = Inr result"
| "gs_outer vecs (j # js) result =
     (let q = gs_inner result j (vecs ! j);
          rjj = norm_v q
      in if rjj = 0 then Inl ArithmeticError
         else gs_outer vecs js (result[j := sdiv q rjj]))"

text \<open>\<open>gram_schmidt(vecs)\<close>; \<open>vecs[0]\<close> raises \<open>IndexError\<close> on an array without rows.\<close>

definition gram_schmidt :: "matrix \<Rightarrow> error + matrix" where
  "gram_schmidt vecs =
     (let result = zeros_like vecs;
          n = length vecs
      in if n = 0 then Inl IndexError
         else let r = norm_v (vecs ! 0)
              in if r = 0 then Inl ArithmeticError
                 else gs_outer vecs [1..<n] (result[0 := sdiv (vecs ! 0) r]))"

section \<open>Auxiliary notions for the statements\<close>

text \<open>
  What the three external calls of \<open>_set_cached\<close> deliver for the key \<open>(c, t)\<close> when
  they are made from the instance \<open>s\<close>: the first exception, or the solver's result.
\<close>

definition solve_outcome :: "sys_class \<Rightarrow> psys \<Rightarrow> controls \<Rightarrow> pyfloat \<Rightarrow> error + fixed_system" where
  "solve_outcome C s c t =
     (let s1 = s\<lparr>last_controls := Val c, last_t := Val t\<rparr>
      in case hf_meth C s1 c of
           Inl e \<Rightarrow> Inl e
         | Inr hf \<Rightarrow>
             (case dhf_meth C s1 c of
                Inl e \<Rightarrow> Inl e
              | Inr dhf \<Rightarrow> FixedSystem C hf dhf (nz s) (omega s) t))"

text \<open>The public operations of a fidelity instance, and runs of them.\<close>

datatype fid_op = Op_f controls | Op_df controls | Op_iterate controls | Op_reset_iterations

fun step ::
  "('sys, 'z) fidelity_state_scheme fidelity_class \<Rightarrow> ('sys, 'z) fidelity_state_scheme \<Rightarrow> fid_op \<Rightarrow>
   ('sys, 'z) fidelity_state_scheme" where
  "step K s (Op_f x) = snd (call_f K s x)"
| "step K s (Op_df x) = snd (call_df K s x)"
| "step K s (Op_iterate x) = snd (FidelityBase_iterate K s x)"
| "step K s Op_reset_iterations = FidelityBase_reset_iterations s"

fun run ::
  "('sys, 'z) fidelity_state_scheme fidelity_class \<Rightarrow> ('sys, 'z) fidelity_state_scheme \<Rightarrow> fid_op list \<Rightarrow>
   ('sys, 'z) fidelity_state_scheme" where
  "run K s [] = s"
| "run K s (a # ops) = run K (step K s a) ops"

fun is_iterate :: "fid_op \<Rightarrow> bool" where
  "is_iterate (Op_iterate x) = True"
| "is_iterate a = False"

text \<open>
  The methods a class supplies leave the attribute \<open>iterations\<close> alone.
\<close>

definition keeps_iterations :: "('sys, 'z) fidelity_state_scheme fidelity_class \<Rightarrow> bool" where
  "keeps_iterations K \<longleftrightarrow>
     (\<forall>s x. iterations (snd (call_iterate_hook K s x)) = iterations s
          \<and> iterations (snd (call_f K s x)) = iterations s
          \<and> iterations (snd (call_df K s x)) = iterations s)"

text \<open>The number a float holds, for the examples below (\<open>nan\<close> is read as 0 there).\<close>

fun num_of :: "pyfloat \<Rightarrow> real" where
  "num_of (Num x) = x"
| "num_of NaN = 0"

text \<open>
  Neither the duration nor an entry of the controls is \<open>nan\<close>.
\<close>

definition nan_free :: "controls \<Rightarrow> pyfloat \<Rightarrow> bool" where
  "nan_free c t \<longleftrightarrow> NaN \<notin> set (entries c) \<and> t \<noteq> NaN"

text \<open>
  A small class below \<open>FidelityBase\<close> that supplies \<open>_f\<close> (the sum of the
  controls) and \<open>_df\<close> (the controls), and an instance of it.
\<close>

definition example_class :: "unit fidelity_state fidelity_class" where
  "example_class = FidelityBase_class\<lparr>
      core_f_override := Some (\<lambda>s x. (Inr (Scalar (sum_list (map num_of (entries x)))), s)),
      core_df_override := Some (\<lambda>s x. (Inr (Array (map num_of (entries x))), s))\<rparr>"

text \<open>
  A subclass of it that overrides \<open>penalty\<close> (the constant 5) and \<open>d_penalty\<close>
  (twice the controls).
\<close>

definition penalised_class :: "unit fidelity_state fidelity_class" where
  "penalised_class = example_class\<lparr>
      penalty_override := Some (\<lambda>s x. (Inr (Scalar 5), s)),
      d_penalty_override := Some (\<lambda>s x. (Inr (Array (map (\<lambda>v. 2 * num_of v) (entries x))), s))\<rparr>"

definition example_state :: "unit fidelity_state" where
  "example_state = \<lparr>system = (), last_controls_and_t = PyNone, iterations = 0\<rparr>"

text \<open>
  A concrete system for the examples: Hamiltonian builders that raise on an empty control
  sequence, and a solver whose propagator is \<open>k\<close> times the mode-truncation count it is
  handed plus the sum of the controls, and which hands back a count one higher.
\<close>

definition toy_hf :: "controls \<Rightarrow> unit \<Rightarrow> real \<Rightarrow> error + matrix list" where
  "toy_hf c p w =
     (if entries c = [] then Inl (HookError ''no controls'')
      else Inr [[[complex_of_real (sum_list (map num_of (entries c)))]]])"

definition toy_dhf :: "controls \<Rightarrow> unit \<Rightarrow> real \<Rightarrow> error + matrix list list" where
  "toy_dhf c p w = Inr [[[[1]]]]"

definition toy_solver :: "int \<Rightarrow> matrix list \<Rightarrow> matrix list list \<Rightarrow> int \<Rightarrow> real \<Rightarrow> pyfloat \<Rightarrow> error + fixed_system" where
  "toy_solver k hf dhf n w t =
     Inr \<lparr>fs_u = [[hd (hd (hd hf)) + of_int (k * n)]], fs_du = [[[complex_of_real (num_of t)]]], fs_nz = n + 1\<rparr>"

definition toy_class :: "int \<Rightarrow> sys_class" where
  "toy_class k = ParametricSystemWithFunctions_class toy_hf toy_dhf () (toy_solver k)"

text \<open>An instance on which \<open>ParametricSystemBase.__init__\<close> has run as well.\<close>

definition toy_system :: psys where
  "toy_system = ParametricSystemBase_init (ParametricSystemWithFunctions_init 1 1)"

definition toy_distance :: "matrix \<Rightarrow> matrix \<Rightarrow> real" where
  "toy_distance u target = Re (hd (hd u)) - Re (hd (hd target))"

definition toy_d_distance :: "matrix \<Rightarrow> matrix list \<Rightarrow> matrix \<Rightarrow> real list" where
  "toy_d_distance u du target = map (\<lambda>m. Re (hd (hd m))) du"

text \<open>
  A member class for ensembles: the member's \<open>_f\<close> returns the number held in its
  \<open>system\<close> attribute, its \<open>_df\<close> that number and its double.
\<close>

definition member_class :: "real fidelity_state fidelity_class" where
  "member_class = FidelityBase_class\<lparr>
      core_f_override := Some (\<lambda>s x. (Inr (Scalar (system s)), s)),
      core_df_override := Some (\<lambda>s x. (Inr (Array [system s, 2 * system s]), s))\<rparr>"

definition member :: "real \<Rightarrow> real fidelity_state" where
  "member v = \<lparr>system = v, last_controls_and_t = PyNone, iterations = 0\<rparr>"

text \<open>
  An \<open>OperatorDistance\<close> on the toy system, and a subclass of \<open>OperatorDistance\<close>
  that overrides \<open>penalty\<close> and \<open>d_penalty\<close>.
\<close>

definition toy_od :: operator_distance where
  "toy_od = OperatorDistance_init toy_system (Num 1) [[1]]"

definition toy_od_class :: "operator_distance fidelity_class" where
  "toy_od_class = (OperatorDistance_class (toy_class 0) toy_distance toy_d_distance)
      \<lparr>penalty_override := Some (\<lambda>s x. (Inr (Scalar 100), s)),
       d_penalty_override := Some (\<lambda>s x. (Inr (Scalar 100), s))\<rparr>"

text \<open>An ensemble of three members whose \<open>f\<close> returns 0.1, 0.2 and 0.3.\<close>

definition toy_ensemble :: "(unit, real fidelity_state) ensemble_fidelity" where
  "toy_ensemble = EnsembleFidelity_init () (\<lambda>e. [1 / 10, 2 / 10, 3 / 10]) member"









text \<open>
  The same orthonormalisation written over a growing list: \<open>mgs_step bs v\<close> is the
  residual of \<open>v\<close> after the projections onto the vectors \<open>bs\<close> have been subtracted one
  after the other, and \<open>mgs bs vs\<close> continues from the orthonormalised vectors \<open>bs\<close> with
  the inputs \<open>vs\<close>.  \<open>gram_schmidt\<close> is shown below to compute \<open>mgs []\<close>.
\<close>

definition mgs_step :: "matrix \<Rightarrow> complex list \<Rightarrow> complex list" where
  "mgs_step bs v = fold (\<lambda>b q. vsub q (smult (product_v b q) b)) bs v"

fun mgs :: "matrix \<Rightarrow> matrix \<Rightarrow> error + matrix" where
  "mgs bs [] = Inr bs"
| "mgs bs (v # vs) =
     (let q = mgs_step bs v
      in if norm_v q = 0 then Inl ArithmeticError
         else mgs (bs @ [sdiv q (norm_v q)]) vs)"

text \<open>
  The rows \<open>vs\<close>, vectors of dimension \<open>d\<close>, are linearly independent: only the zero
  coefficients combine them to the zero vector.
\<close>

definition linearly_independent :: "nat \<Rightarrow> matrix \<Rightarrow> bool" where
  "linearly_independent d vs \<longleftrightarrow>
     (\<forall>c :: nat \<Rightarrow> complex.
        (\<forall>k<d. (\<Sum>i<length vs. c i * vs ! i ! k) = 0) \<longrightarrow> (\<forall>i<length vs. c i = 0))"

text \<open>The rows \<open>bs\<close> are orthonormal with respect to \<open>product\<close>.\<close>

definition orthonormal :: "matrix \<Rightarrow> bool" where
  "orthonormal bs \<longleftrightarrow>
     (\<forall>i<length bs. \<forall>j<length bs. product_v (bs ! i) (bs ! j) = (if i = j then 1 else 0))"

text \<open>\<open>w\<close>, of dimension \<open>d\<close>, is a linear combination of the rows \<open>ps\<close>.\<close>

definition in_span :: "nat \<Rightarrow> matrix \<Rightarrow> complex list \<Rightarrow> bool" where
  "in_span d ps w \<longleftrightarrow>
     length w = d \<and> (\<exists>c :: nat \<Rightarrow> complex. \<forall>k<d. w ! k = (\<Sum>i<length ps. c i * ps ! i ! k))"



section \<open>Properties\<close>

subsection \<open>The fidelity base contract\<close>

lemma py_add_zero: "py_add a (Scalar 0) = Inr a"
  by (cases a) simp_all

text \<open>
  C6: for a class that inherits \<open>f\<close> and \<open>df\<close> from \<open>FidelityBase\<close>, \<open>f(x)\<close> is
  \<open>_f(x) + penalty(x)\<close> and \<open>df(x)\<close> is \<open>_df(x) + d_penalty(x)\<close>, the second call
  made on the instance as the first left it.  Two floats \<open>a\<close> and \<open>b\<close> give the float
  \<open>a + b\<close>; two arrays of one length give the array of the entrywise sums; an array and a
  float give the array with the float added to every entry; in general the result is the
  \<open>+\<close> of the two values.  An exception raised by \<open>_f\<close> (\<open>_df\<close>) is raised by
  \<open>f\<close> (\<open>df\<close>).  When \<open>penalty\<close> (\<open>d_penalty\<close>) is not overridden it contributes
  exactly zero, so that \<open>f(x)\<close> is \<open>_f(x)\<close> and \<open>df(x)\<close> is \<open>_df(x)\<close>, value and
  instance alike.
\<close>

theorem f_is_core_plus_penalty:
  assumes "f_override K = None" and "df_override K = None"
  shows "(call_core_f K s x = (Inr (Scalar a), s') \<longrightarrow> call_penalty K s' x = (Inr (Scalar b), s'') \<longrightarrow>
            call_f K s x = (Inr (Scalar (a + b)), s''))
       \<and> (call_core_df K s x = (Inr (Array g), s') \<longrightarrow> call_d_penalty K s' x = (Inr (Array h), s'') \<longrightarrow>
          length h = length g \<longrightarrow>
            call_df K s x = (Inr (Array (map2 (+) g h)), s''))
       \<and> (call_core_df K s x = (Inr (Array g), s') \<longrightarrow> call_d_penalty K s' x = (Inr (Scalar b), s'') \<longrightarrow>
            call_df K s x = (Inr (Array (map (\<lambda>y. y + b) g)), s''))
       \<and> (call_core_f K s x = (Inr v, s') \<longrightarrow> call_penalty K s' x = (Inr w, s'') \<longrightarrow>
            call_f K s x = (py_add v w, s''))
       \<and> (call_core_df K s x = (Inr v, s') \<longrightarrow> call_d_penalty K s' x = (Inr w, s'') \<longrightarrow>
            call_df K s x = (py_add v w, s''))
       \<and> (call_core_f K s x = (Inl e, s') \<longrightarrow> call_f K s x = (Inl e, s'))
       \<and> (call_core_df K s x = (Inl e, s') \<longrightarrow> call_df K s x = (Inl e, s'))
       \<and> (penalty_override K = None \<longrightarrow> call_f K s x = call_core_f K s x)
       \<and> (d_penalty_override K = None \<longrightarrow> call_df K s x = call_core_df K s x)"
proof -
  have f: "call_f K = FidelityBase_f K" and df: "call_df K = FidelityBase_df K"
    using assms by (simp_all add: call_f_def call_df_def)
  have "call_core_f K s x = (Inr (Scalar a), s') \<longrightarrow> call_penalty K s' x = (Inr (Scalar b), s'') \<longrightarrow>
            call_f K s x = (Inr (Scalar (a + b)), s'')"
    by (simp add: f FidelityBase_f_def)
  moreover have "call_core_df K s x = (Inr (Array g), s') \<longrightarrow> call_d_penalty K s' x = (Inr (Array h), s'') \<longrightarrow>
          length h = length g \<longrightarrow> call_df K s x = (Inr (Array (map2 (+) g h)), s'')"
    by (simp add: df FidelityBase_df_def)
  moreover have "call_core_df K s x = (Inr (Array g), s') \<longrightarrow> call_d_penalty K s' x = (Inr (Scalar b), s'') \<longrightarrow>
            call_df K s x = (Inr (Array (map (\<lambda>y. y + b) g)), s'')"
    by (simp add: df FidelityBase_df_def)
  moreover have "call_core_f K s x = (Inr v, s') \<longrightarrow> call_penalty K s' x = (Inr w, s'') \<longrightarrow>
            call_f K s x = (py_add v w, s'')"
    by (simp add: f FidelityBase_f_def)
  moreover have "call_core_df K s x = (Inr v, s') \<longrightarrow> call_d_penalty K s' x = (Inr w, s'') \<longrightarrow>
            call_df K s x = (py_add v w, s'')"
    by (simp add: df FidelityBase_df_def)
  moreover have "call_core_f K s x = (Inl e, s') \<longrightarrow> call_f K s x = (Inl e, s')"
    by (simp add: f FidelityBase_f_def)
  moreover have "call_core_df K s x = (Inl e, s') \<longrightarrow> call_df K s x = (Inl e, s')"
    by (simp add: df FidelityBase_df_def)
  moreover have "penalty_override K = None \<longrightarrow> call_f K s x = call_core_f K s x"
    by (auto simp: f FidelityBase_f_def call_penalty_def FidelityBase_penalty_def py_add_zero
        split: prod.splits sum.splits)
  moreover have "d_penalty_override K = None \<longrightarrow> call_df K s x = call_core_df K s x"
    by (auto simp: df FidelityBase_df_def call_d_penalty_def FidelityBase_d_penalty_def py_add_zero
        split: prod.splits sum.splits)
  ultimately show ?thesis by blast
qed

theorem f_is_core_plus_penalty_witness:
  "f_override penalised_class = None \<and> df_override penalised_class = None
   \<and> call_core_f penalised_class example_state (NdArray [Num 1, Num 2]) = (Inr (Scalar 3), example_state)
   \<and> call_penalty penalised_class example_state (NdArray [Num 1, Num 2]) = (Inr (Scalar 5), example_state)
   \<and> call_f penalised_class example_state (NdArray [Num 1, Num 2]) = (Inr (Scalar 8), example_state)
   \<and> call_core_df penalised_class example_state (NdArray [Num 1, Num 2]) = (Inr (Array [1, 2]), example_state)
   \<and> call_d_penalty penalised_class example_state (NdArray [Num 1, Num 2]) = (Inr (Array [2, 4]), example_state)
   \<and> call_df penalised_class example_state (NdArray [Num 1, Num 2]) = (Inr (Array [3, 6]), example_state)
   \<and> f_override example_class = None \<and> df_override example_class = None
   \<and> penalty_override example_class = None \<and> d_penalty_override example_class = None
   \<and> call_f example_class example_state (NdArray [Num 1, Num 2]) = (Inr (Scalar 3), example_state)
   \<and> call_df example_class example_state (NdArray [Num 1, Num 2]) = (Inr (Array [1, 2]), example_state)"
proof -
  let ?x = "NdArray [Num 1, Num 2]"
  have o: "f_override penalised_class = None" "df_override penalised_class = None"
      "f_override example_class = None" "df_override example_class = None"
      "penalty_override example_class = None" "d_penalty_override example_class = None"
    by (simp_all add: penalised_class_def example_class_def FidelityBase_class_def)
  have c: "call_core_f penalised_class example_state ?x = (Inr (Scalar 3), example_state)"
      "call_penalty penalised_class example_state ?x = (Inr (Scalar 5), example_state)"
      "call_core_df penalised_class example_state ?x = (Inr (Array [1, 2]), example_state)"
      "call_d_penalty penalised_class example_state ?x = (Inr (Array [2, 4]), example_state)"
      "call_core_f example_class example_state ?x = (Inr (Scalar 3), example_state)"
      "call_core_df example_class example_state ?x = (Inr (Array [1, 2]), example_state)"
    by (simp_all add: penalised_class_def example_class_def FidelityBase_class_def call_core_f_def
        call_core_df_def call_penalty_def call_d_penalty_def)
  note p = f_is_core_plus_penalty[OF o(1,2), where s = example_state and x = ?x and a = 3
      and s' = example_state and b = 5 and s'' = example_state and g = "[1, 2]" and h = "[2, 4]"]
  note q = f_is_core_plus_penalty[OF o(3,4), where s = example_state and x = ?x]
  have r: "call_f penalised_class example_state ?x = (Inr (Scalar 8), example_state)"
      "call_df penalised_class example_state ?x = (Inr (Array [3, 6]), example_state)"
    using p c(1,2,3,4) by simp_all
  have d: "call_f example_class example_state ?x = (Inr (Scalar 3), example_state)"
      "call_df example_class example_state ?x = (Inr (Array [1, 2]), example_state)"
    using q o(5,6) c(5,6) by simp_all
  show ?thesis
    using o c(1,2,3,4) r d by (intro conjI)
qed

lemma keeps_iterations_FidelityBase: "keeps_iterations FidelityBase_class"
  by (simp add: keeps_iterations_def call_iterate_hook_def call_f_def call_df_def FidelityBase_class_def
      FidelityBase_f_def FidelityBase_df_def call_core_f_def call_core_df_def
      FidelityBase_core_f_def FidelityBase_core_df_def FidelityBase_iterate_hook_def)

lemma keeps_iterations_OperatorDistance:
  "keeps_iterations (OperatorDistance_class C distance d_distance)"
  by (auto simp: keeps_iterations_def call_iterate_hook_def call_f_def call_df_def
      OperatorDistance_class_def OperatorDistance_f_def OperatorDistance_df_def
      FidelityBase_iterate_hook_def split: prod.splits sum.splits)

lemma keeps_iterations_EnsembleFidelity:
  "keeps_iterations (EnsembleFidelity_class M)"
  by (auto simp: keeps_iterations_def call_iterate_hook_def call_f_def call_df_def
      EnsembleFidelity_class_def EnsembleFidelity_core_f_def EnsembleFidelity_core_df_def
      FidelityBase_f_def FidelityBase_df_def call_core_f_def call_core_df_def
      call_penalty_def call_d_penalty_def FidelityBase_penalty_def FidelityBase_d_penalty_def
      FidelityBase_iterate_hook_def split: prod.splits sum.splits)

lemma iterate_increments:
  "keeps_iterations K \<Longrightarrow> iterations (snd (FidelityBase_iterate K s x)) = iterations s + 1"
proof -
  assume k: "keeps_iterations K"
  let ?s1 = "s\<lparr>iterations := iterations s + 1\<rparr>"
  have a: "iterations (snd (call_iterate_hook K ?s1 x)) = iterations s + 1"
    using k by (simp add: keeps_iterations_def)
  have b: "\<And>s2. iterations (snd (call_f K s2 x)) = iterations s2"
    using k by (simp add: keeps_iterations_def)
  show ?thesis
    using a b[of "snd (call_iterate_hook K ?s1 x)"]
    by (auto simp: FidelityBase_iterate_def Let_def split: prod.splits sum.splits)
qed

lemma keeps_iterationsD:
  assumes "keeps_iterations K"
  shows "iterations (snd (call_f K s x)) = iterations s"
    and "iterations (snd (call_df K s x)) = iterations s"
    and "iterations (snd (call_iterate_hook K s x)) = iterations s"
  using assms by (simp_all add: keeps_iterations_def)

lemma step_iterations:
  assumes "keeps_iterations K"
  shows "iterations (step K s a) =
     (case a of Op_reset_iterations \<Rightarrow> 0 | Op_iterate x \<Rightarrow> iterations s + 1 | _ \<Rightarrow> iterations s)"
  by (cases a)
     (simp_all add: iterate_increments[OF assms] keeps_iterationsD[OF assms] FidelityBase_reset_iterations_def)

lemma run_no_reset:
  assumes "keeps_iterations K"
  shows "Op_reset_iterations \<notin> set ops \<Longrightarrow>
   iterations (run K s ops) = iterations s + int (length (filter is_iterate ops))"
proof (induction ops arbitrary: s)
  case Nil
  then show ?case by simp
next
  case (Cons a ops)
  then show ?case
    using step_iterations[OF assms, of s a] by (cases a) simp_all
qed

lemma run_nonneg:
  assumes "keeps_iterations K"
  shows "0 \<le> iterations s \<Longrightarrow> 0 \<le> iterations (run K s ops)"
proof (induction ops arbitrary: s)
  case Nil
  then show ?case by simp
next
  case (Cons a ops)
  have "0 \<le> iterations (step K s a)"
    using Cons.prems step_iterations[OF assms, of s a] by (cases a) simp_all
  then show ?case using Cons.IH by simp
qed

lemma keeps_iterations_example: "keeps_iterations example_class"
  by (simp add: keeps_iterations_def call_iterate_hook_def call_f_def call_df_def FidelityBase_class_def
      FidelityBase_f_def FidelityBase_df_def call_core_f_def call_core_df_def example_class_def
      call_penalty_def call_d_penalty_def FidelityBase_penalty_def FidelityBase_d_penalty_def
      FidelityBase_iterate_hook_def py_add_zero)

text \<open>
  C9: for a fidelity class whose methods leave the attribute \<open>iterations\<close> alone (as
  those of \<open>FidelityBase\<close>, \<open>OperatorDistance\<close> and \<open>EnsembleFidelity\<close> do),
  \<open>iterate(x)\<close> adds exactly one to the counter whatever \<open>x\<close> is and whether or not the
  call raises, \<open>reset_iterations()\<close> sets it to zero, no operation other than
  \<open>reset_iterations\<close> makes it smaller, a run without \<open>reset_iterations\<close> adds the
  number of its \<open>iterate\<close> calls, and a counter that is not negative stays so.
\<close>

theorem iterations_counter:
  assumes "keeps_iterations K"
  shows "iterations (snd (FidelityBase_iterate K s x)) = iterations s + 1
       \<and> iterations (FidelityBase_reset_iterations s) = 0
       \<and> (a \<noteq> Op_reset_iterations \<longrightarrow> iterations s \<le> iterations (step K s a))
       \<and> (Op_reset_iterations \<notin> set ops \<longrightarrow>
            iterations (run K s ops) = iterations s + int (length (filter is_iterate ops)))
       \<and> (0 \<le> iterations s \<longrightarrow> 0 \<le> iterations (run K s ops))"
proof -
  have "a \<noteq> Op_reset_iterations \<longrightarrow> iterations s \<le> iterations (step K s a)"
    using step_iterations[OF assms, of s a] by (cases a) simp_all
  then show ?thesis
    using assms by (simp add: iterate_increments run_no_reset run_nonneg FidelityBase_reset_iterations_def)
qed

theorem iterations_counter_witness:
  "keeps_iterations example_class
   \<and> iterations (snd (FidelityBase_iterate example_class example_state (NdArray [Num 1]))) = 1
   \<and> iterations (run example_class example_state
        [Op_iterate (NdArray [Num 1]), Op_f (NdArray [Num 1]), Op_iterate (PySeq [])]) = 2"
  using iterations_counter[OF keeps_iterations_example, of example_state "NdArray [Num 1]" "Op_f (NdArray [Num 1])"
      "[Op_iterate (NdArray [Num 1]), Op_f (NdArray [Num 1]), Op_iterate (PySeq [])]"]
  by (simp add: example_state_def keeps_iterations_example)

subsection \<open>OperatorDistance\<close>

lemma toy_u_first:
  "ParametricSystemBase_u (toy_class k) toy_system (NdArray [Num 2]) (Num 1) =
     (Inr [[2 + of_int k]], toy_system\<lparr>last_controls := Val (NdArray [Num 2]), last_t := Val (Num 1),
         hf_calls := 1, dhf_calls := 1, solver_calls := 1,
         fixed_system := Some \<lparr>fs_u = [[2 + of_int k]], fs_du = [[[1]]], fs_nz = 2\<rparr>, nz := 2\<rparr>)"
  by (simp add: ParametricSystemBase_u_def is_cached_def toy_system_def ParametricSystemBase_init_def
      ParametricSystemWithFunctions_init_def new_object_def set_cached_def toy_class_def
      ParametricSystemWithFunctions_class_def toy_hf_def toy_dhf_def toy_solver_def)

lemma toy_du_second:
  "ParametricSystemBase_du (toy_class k) (snd (ParametricSystemBase_u (toy_class k) toy_system (NdArray [Num 2]) (Num 1))) (NdArray [Num 2]) (Num 1) =
     (Inr [[[1]]], snd (ParametricSystemBase_u (toy_class k) toy_system (NdArray [Num 2]) (Num 1)))"
  by (simp add: toy_u_first ParametricSystemBase_du_def is_cached_def)

text \<open>
  C7: for every class whose \<open>f\<close> and \<open>df\<close> are those of \<open>OperatorDistance\<close>,
  whatever it does with \<open>penalty\<close> and \<open>d_penalty\<close>: when \<open>system.u(controls, t)\<close>
  returns \<open>U\<close>, \<open>f(controls)\<close> returns \<open>operator_distance(U, target)\<close>; when
  moreover the following \<open>system.du(controls, t)\<close> returns \<open>dU\<close>, \<open>df(controls)\<close>
  returns \<open>d_operator_distance(U, dU, target)\<close>.  No penalty term is added.
\<close>

theorem operator_distance_bypasses_penalty:
  assumes "f_override K = Some (OperatorDistance_f C distance)"
      and "df_override K = Some (OperatorDistance_df C d_distance)"
  shows "(ParametricSystemBase_u C (system s) x (od_t s) = (Inr U, sys1) \<longrightarrow>
            call_f K s x = (Inr (Scalar (distance U (od_target s))), s\<lparr>system := sys1\<rparr>))
       \<and> (ParametricSystemBase_u C (system s) x (od_t s) = (Inr U, sys1) \<longrightarrow>
          ParametricSystemBase_du C sys1 x (od_t s) = (Inr dU, sys2) \<longrightarrow>
            call_df K s x = (Inr (Array (d_distance U dU (od_target s))), s\<lparr>system := sys2\<rparr>))"
  using assms by (simp add: call_f_def call_df_def OperatorDistance_f_def OperatorDistance_df_def)

theorem operator_distance_bypasses_penalty_witness:
  "f_override toy_od_class = Some (OperatorDistance_f (toy_class 0) toy_distance)
   \<and> df_override toy_od_class = Some (OperatorDistance_df (toy_class 0) toy_d_distance)
   \<and> penalty_override toy_od_class \<noteq> None
   \<and> fst (call_f toy_od_class toy_od (NdArray [Num 2])) = Inr (Scalar 1)
   \<and> fst (call_df toy_od_class toy_od (NdArray [Num 2])) = Inr (Array [1])"
  using operator_distance_bypasses_penalty[of toy_od_class "toy_class 0" toy_distance toy_d_distance toy_od
      "NdArray [Num 2]" "[[2]]" "snd (ParametricSystemBase_u (toy_class 0) toy_system (NdArray [Num 2]) (Num 1))"
      "[[[1]]]" "snd (ParametricSystemBase_u (toy_class 0) toy_system (NdArray [Num 2]) (Num 1))"]
    toy_u_first[of 0] toy_du_second[of 0]
  by (simp add: toy_od_class_def OperatorDistance_class_def toy_od_def OperatorDistance_init_def
      toy_distance_def toy_d_distance_def)

subsection \<open>EnsembleFidelity\<close>

lemma comprehension_values:
  "length vs = length ms \<Longrightarrow> (\<forall>i<length ms. fst (g (ms ! i) x) = Inr (vs ! i)) \<Longrightarrow>
   fst (comprehension g ms x) = Inr vs"
proof (induction ms arbitrary: vs)
  case Nil
  then show ?case by simp
next
  case (Cons m ms)
  then obtain v vs' where vs: "vs = v # vs'" by (cases vs) auto
  have h: "fst (g m x) = Inr v" using Cons.prems(2) vs by force
  have "\<forall>i<length ms. fst (g (ms ! i) x) = Inr (vs' ! i)"
    using Cons.prems(2) vs by force
  then have "fst (comprehension g ms x) = Inr vs'"
    using Cons.IH[of vs'] Cons.prems(1) vs by simp
  then show ?case using h vs by (auto split: prod.splits sum.splits)
qed

lemma scalars_of_map_Scalar: "scalars_of (map Scalar fs) = Some fs"
  by (induction fs) simp_all

lemma arrays_of_map_Array: "arrays_of (map Array gs) = Some gs"
  by (induction gs) simp_all

lemma scalars_of_map_Array: "gs \<noteq> [] \<Longrightarrow> scalars_of (map Array gs) = None"
  by (cases gs) simp_all

lemma np_mean_scalars: "fs \<noteq> [] \<Longrightarrow> np_mean (map Scalar fs) = Inr (Scalar (sum_list fs / real (length fs)))"
  by (simp add: np_mean_def scalars_of_map_Scalar)

lemma np_mean_axis0_arrays:
  assumes "gs \<noteq> []" and "\<forall>r\<in>set gs. length r = d"
  shows "np_mean_axis0 (map Array gs) =
     Inr (Array (map (\<lambda>k. sum_list (map (\<lambda>r. r ! k) gs) / real (length gs)) [0..<d]))"
proof -
  have "hd gs \<in> set gs" using assms(1) by simp
  then have "length (hd gs) = d" using assms(2) by blast
  moreover have "same_length gs"
    using assms(2) \<open>length (hd gs) = d\<close> by (simp add: same_length_def list_all_iff)
  ultimately show ?thesis
    using assms(1) by (simp add: np_mean_axis0_def scalars_of_map_Array arrays_of_map_Array)
qed

text \<open>
  C8: for an \<open>EnsembleFidelity\<close> with at least one member, when the members' \<open>f(x)\<close>
  return the floats \<open>fs\<close>, \<open>_f(x)\<close> returns their sum divided by their number; when the
  members' \<open>df(x)\<close> return the arrays \<open>gs\<close>, all of length \<open>d\<close>, \<open>_df(x)\<close> returns
  an array of length \<open>d\<close> whose entry \<open>k\<close> is the sum of the entries \<open>k\<close> divided by
  the number of members.
\<close>

theorem ensemble_mean:
  assumes "fidelities s \<noteq> []"
  shows "(length fs = length (fidelities s) \<longrightarrow>
          (\<forall>i<length (fidelities s). fst (call_f M (fidelities s ! i) x) = Inr (Scalar (fs ! i))) \<longrightarrow>
            fst (call_core_f (EnsembleFidelity_class M) s x) = Inr (Scalar (sum_list fs / real (length fs))))
       \<and> (length gs = length (fidelities s) \<longrightarrow>
          (\<forall>i<length (fidelities s). fst (call_df M (fidelities s ! i) x) = Inr (Array (gs ! i))
                \<and> length (gs ! i) = d) \<longrightarrow>
            (\<exists>g. fst (call_core_df (EnsembleFidelity_class M) s x) = Inr (Array g) \<and> length g = d
               \<and> (\<forall>k<d. g ! k = sum_list (map (\<lambda>r. r ! k) gs) / real (length gs))))"
proof (intro conjI impI)
  assume l: "length fs = length (fidelities s)"
    and v: "\<forall>i<length (fidelities s). fst (call_f M (fidelities s ! i) x) = Inr (Scalar (fs ! i))"
  have "fst (comprehension (call_f M) (fidelities s) x) = Inr (map Scalar fs)"
    using l v by (intro comprehension_values) simp_all
  moreover have "fs \<noteq> []" using l assms by auto
  ultimately show "fst (call_core_f (EnsembleFidelity_class M) s x) = Inr (Scalar (sum_list fs / real (length fs)))"
    by (auto simp: call_core_f_def EnsembleFidelity_class_def EnsembleFidelity_core_f_def np_mean_scalars
        split: prod.splits sum.splits)
next
  assume l: "length gs = length (fidelities s)"
    and v: "\<forall>i<length (fidelities s). fst (call_df M (fidelities s ! i) x) = Inr (Array (gs ! i))
                \<and> length (gs ! i) = d"
  have c: "fst (comprehension (call_df M) (fidelities s) x) = Inr (map Array gs)"
    using l v by (intro comprehension_values) simp_all
  have ne: "gs \<noteq> []" using l assms by auto
  have len: "\<forall>r\<in>set gs. length r = d"
    using l v by (auto simp: in_set_conv_nth)
  let ?g = "map (\<lambda>k. sum_list (map (\<lambda>r. r ! k) gs) / real (length gs)) [0..<d]"
  have "fst (call_core_df (EnsembleFidelity_class M) s x) = Inr (Array ?g)"
    using c np_mean_axis0_arrays[OF ne len]
    by (auto simp: call_core_df_def EnsembleFidelity_class_def EnsembleFidelity_core_df_def
        split: prod.splits sum.splits)
  then show "\<exists>g. fst (call_core_df (EnsembleFidelity_class M) s x) = Inr (Array g) \<and> length g = d
               \<and> (\<forall>k<d. g ! k = sum_list (map (\<lambda>r. r ! k) gs) / real (length gs))"
    by (intro exI[of _ ?g]) simp
qed

lemma member_f: "fst (call_f member_class (member v) x) = Inr (Scalar v)"
  by (simp add: call_f_def member_class_def FidelityBase_class_def FidelityBase_f_def call_core_f_def
      call_penalty_def FidelityBase_penalty_def member_def)

lemma member_df: "fst (call_df member_class (member v) x) = Inr (Array [v, 2 * v])"
  by (simp add: call_df_def member_class_def FidelityBase_class_def FidelityBase_df_def call_core_df_def
      call_d_penalty_def FidelityBase_d_penalty_def member_def)

lemma members_f:
  "\<forall>i<length vs. fst (call_f member_class (map member vs ! i) x) = Inr (Scalar (vs ! i))"
  by (simp add: member_f)

lemma members_df:
  "\<forall>i<length vs. fst (call_df member_class (map member vs ! i) x) = Inr (Array (map (\<lambda>v. [v, 2 * v]) vs ! i))
      \<and> length (map (\<lambda>v. [v, 2 * v]) vs ! i) = 2"
  by (simp add: member_df)

theorem ensemble_mean_witness:
  "fidelities toy_ensemble \<noteq> []
   \<and> fst (call_core_f (EnsembleFidelity_class member_class) toy_ensemble (NdArray [Num 1])) = Inr (Scalar (2 / 10))
   \<and> (\<exists>g. fst (call_core_df (EnsembleFidelity_class member_class) toy_ensemble (NdArray [Num 1])) = Inr (Array g)
          \<and> length g = 2 \<and> g ! 0 = 2 / 10 \<and> g ! 1 = 4 / 10)"
proof -
  let ?fs = "[1 / 10, 2 / 10, 3 / 10] :: real list"
  let ?gs = "map (\<lambda>v. [v, 2 * v]) ?fs"
  have f: "fidelities toy_ensemble = map member ?fs"
    by (simp add: toy_ensemble_def EnsembleFidelity_init_def)
  have ne: "fidelities toy_ensemble \<noteq> []"
    by (simp add: f)
  have m: "\<forall>i<length (fidelities toy_ensemble).
      fst (call_f member_class (fidelities toy_ensemble ! i) (NdArray [Num 1])) = Inr (Scalar (?fs ! i))"
    unfolding f using members_f[of ?fs] by simp
  have dm: "\<forall>i<length (fidelities toy_ensemble).
      fst (call_df member_class (fidelities toy_ensemble ! i) (NdArray [Num 1])) = Inr (Array (?gs ! i))
      \<and> length (?gs ! i) = 2"
    unfolding f using members_df[of ?fs] by simp
  have l: "length ?fs = length (fidelities toy_ensemble)" "length ?gs = length (fidelities toy_ensemble)"
    by (simp_all add: f)
  have n3: "real (length (fidelities toy_ensemble)) = 3"
    by (simp add: f)
  have r: "fst (call_core_f (EnsembleFidelity_class member_class) toy_ensemble (NdArray [Num 1]))
             = Inr (Scalar (sum_list ?fs / real (length ?fs)))
         \<and> (\<exists>g. fst (call_core_df (EnsembleFidelity_class member_class) toy_ensemble (NdArray [Num 1])) = Inr (Array g)
               \<and> length g = 2 \<and> (\<forall>k<2. g ! k = sum_list (map (\<lambda>r. r ! k) ?gs) / real (length ?gs)))"
    using ensemble_mean[OF ne, of ?fs member_class "NdArray [Num 1]" ?gs 2] m dm l by blast
  then obtain g where g: "fst (call_core_df (EnsembleFidelity_class member_class) toy_ensemble (NdArray [Num 1])) = Inr (Array g)"
      "length g = 2" "\<forall>k<2. g ! k = sum_list (map (\<lambda>r. r ! k) ?gs) / real (length ?gs)"
    by blast
  have "g ! 0 = sum_list (map (\<lambda>r. r ! 0) ?gs) / real (length ?gs)"
       "g ! 1 = sum_list (map (\<lambda>r. r ! 1) ?gs) / real (length ?gs)"
    using g(3) by (simp_all del: sum_list.Cons list.map)
  then have "g ! 0 = 2 / 10" "g ! 1 = 4 / 10"
    by simp_all
  then show ?thesis
    using r g(1,2) ne by simp
qed

subsection \<open>The one-slot cache of ParametricSystemBase\<close>

lemma set_cached_fails:
  assumes "solve_outcome C s c t = Inl e"
  shows "\<exists>s'. set_cached C s c t = (Inl e, s') \<and> last_controls s' = Val c \<and> last_t s' = Val t
            \<and> fixed_system s' = fixed_system s \<and> nz s' = nz s \<and> omega s' = omega s
            \<and> hf_calls s < hf_calls s'"
  using assms
  by (auto simp: solve_outcome_def set_cached_def Let_def split: sum.splits)

lemma set_cached_succeeds:
  assumes "solve_outcome C s c t = Inr fs"
  shows "set_cached C s c t =
     (Inr (), s\<lparr>last_controls := Val c, last_t := Val t, hf_calls := hf_calls s + 1,
                dhf_calls := dhf_calls s + 1, solver_calls := solver_calls s + 1,
                fixed_system := Some fs\<rparr>)"
  using assms
  by (auto simp: solve_outcome_def set_cached_def Let_def split: sum.splits)

lemma float_eq_same: "float_eq x x \<longleftrightarrow> x \<noteq> NaN"
  by (cases x) simp_all


lemma array_equal_same: "array_equal (Val c) c \<longleftrightarrow> NaN \<notin> set (entries c)"
  by (auto simp: list_all2_same float_eq_same)


lemma is_cached_initialised:
  assumes "last_t s \<noteq> Unset" and "last_controls s \<noteq> Unset"
  shows "is_cached s c t =
     Inr (isinstance_ndarray c \<and> (\<exists>t'. last_t s = Val t' \<and> float_eq t' t) \<and> array_equal (last_controls s) c)"
  using assms by (cases "last_t s"; cases "last_controls s") (auto simp: is_cached_def)

lemma is_cached_stored:
  assumes "last_controls s = Val c" and "last_t s = Val t"
  shows "is_cached s c t = Inr (isinstance_ndarray c \<and> nan_free c t)"
proof -
  have "is_cached s c t =
     Inr (isinstance_ndarray c \<and> (\<exists>t'. last_t s = Val t' \<and> float_eq t' t) \<and> array_equal (last_controls s) c)"
    by (rule is_cached_initialised) (simp_all add: assms)
  then show ?thesis
    unfolding assms array_equal_same by (auto simp: nan_free_def float_eq_same)
qed

lemma is_cached_key:
  "isinstance_ndarray c \<Longrightarrow> nan_free c t \<Longrightarrow> last_controls s = Val c \<Longrightarrow> last_t s = Val t \<Longrightarrow>
   is_cached s c t = Inr True"
  by (simp add: is_cached_stored)

lemma set_cached_hf_calls: "hf_calls (snd (set_cached C s c t)) = hf_calls s + 1"
  by (auto simp: set_cached_def Let_def split: sum.splits)

lemma set_cached_solver_calls: "solver_calls (snd (set_cached C s c t)) \<le> solver_calls s + 1"
  by (auto simp: set_cached_def Let_def split: sum.splits)

lemma miss_calls_hook:
  assumes "is_cached s c t = Inr False"
  shows "hf_calls (snd (ParametricSystemBase_u C s c t)) = hf_calls s + 1"
    and "hf_calls (snd (ParametricSystemBase_du C s c t)) = hf_calls s + 1"
  using assms set_cached_hf_calls[of C s c t]
  by (auto simp: ParametricSystemBase_u_def ParametricSystemBase_du_def split: prod.splits sum.splits option.splits)

lemma cache_hit_iff:
  assumes "last_t s \<noteq> Unset" and "last_controls s \<noteq> Unset" and "fixed_system s = Some fs"
  shows "ParametricSystemBase_u C s c t = (Inr (fs_u fs), s) \<longleftrightarrow>
           isinstance_ndarray c \<and> (\<exists>t'. last_t s = Val t' \<and> float_eq t' t) \<and> array_equal (last_controls s) c"
    and "ParametricSystemBase_du C s c t = (Inr (fs_du fs), s) \<longleftrightarrow>
           isinstance_ndarray c \<and> (\<exists>t'. last_t s = Val t' \<and> float_eq t' t) \<and> array_equal (last_controls s) c"
proof -
  let ?h = "isinstance_ndarray c \<and> (\<exists>t'. last_t s = Val t' \<and> float_eq t' t) \<and> array_equal (last_controls s) c"
  have ic: "is_cached s c t = Inr ?h"
    using assms(1,2) by (rule is_cached_initialised)
  show "ParametricSystemBase_u C s c t = (Inr (fs_u fs), s) \<longleftrightarrow> ?h"
  proof (cases ?h)
    case True
    then show ?thesis using ic assms(3) by (simp add: ParametricSystemBase_u_def)
  next
    case False
    then have "is_cached s c t = Inr False" using ic by simp
    then have "hf_calls (snd (ParametricSystemBase_u C s c t)) = hf_calls s + 1"
      by (rule miss_calls_hook)
    then have "snd (ParametricSystemBase_u C s c t) \<noteq> s" by auto
    then show ?thesis using False by auto
  qed
  show "ParametricSystemBase_du C s c t = (Inr (fs_du fs), s) \<longleftrightarrow> ?h"
  proof (cases ?h)
    case True
    then show ?thesis using ic assms(3) by (simp add: ParametricSystemBase_du_def)
  next
    case False
    then have "is_cached s c t = Inr False" using ic by simp
    then have "hf_calls (snd (ParametricSystemBase_du C s c t)) = hf_calls s + 1"
      by (rule miss_calls_hook)
    then have "snd (ParametricSystemBase_du C s c t) \<noteq> s" by auto
    then show ?thesis using False by auto
  qed
qed

lemma u_result_state:
  assumes "ParametricSystemBase_u C s c t = (Inr U, s1)"
  shows "is_cached s c t = Inr True \<and> s1 = s
       \<or> is_cached s c t = Inr False \<and> (\<exists>fs. solve_outcome C s c t = Inr fs \<and> U = fs_u fs
            \<and> s1 = s\<lparr>last_controls := Val c, last_t := Val t, hf_calls := hf_calls s + 1,
                dhf_calls := dhf_calls s + 1, solver_calls := solver_calls s + 1,
                fixed_system := Some fs, nz := fs_nz fs\<rparr>)"
proof (cases "is_cached s c t")
  case (Inl e)
  then show ?thesis using assms by (simp add: ParametricSystemBase_u_def)
next
  case (Inr b)
  show ?thesis
  proof (cases b)
    case True
    then show ?thesis using assms Inr
      by (auto simp: ParametricSystemBase_u_def split: option.splits)
  next
    case False
    show ?thesis
    proof (cases "solve_outcome C s c t")
      case (Inl e)
      then show ?thesis using assms Inr False set_cached_fails[OF Inl]
        by (auto simp: ParametricSystemBase_u_def)
    next
      case fs: (Inr fs)
      show ?thesis using assms Inr False set_cached_succeeds[OF fs] fs
        by (auto simp: ParametricSystemBase_u_def)
    qed
  qed
qed

lemma du_result_state:
  assumes "ParametricSystemBase_du C s c t = (Inr dU, s1)"
  shows "is_cached s c t = Inr True \<and> s1 = s
       \<or> is_cached s c t = Inr False \<and> (\<exists>fs. solve_outcome C s c t = Inr fs \<and> dU = fs_du fs
            \<and> s1 = s\<lparr>last_controls := Val c, last_t := Val t, hf_calls := hf_calls s + 1,
                dhf_calls := dhf_calls s + 1, solver_calls := solver_calls s + 1,
                fixed_system := Some fs, nz := fs_nz fs\<rparr>)"
proof (cases "is_cached s c t")
  case (Inl e)
  then show ?thesis using assms by (simp add: ParametricSystemBase_du_def)
next
  case (Inr b)
  show ?thesis
  proof (cases b)
    case True
    then show ?thesis using assms Inr
      by (auto simp: ParametricSystemBase_du_def split: option.splits)
  next
    case False
    show ?thesis
    proof (cases "solve_outcome C s c t")
      case (Inl e)
      then show ?thesis using assms Inr False set_cached_fails[OF Inl]
        by (auto simp: ParametricSystemBase_du_def)
    next
      case fs: (Inr fs)
      show ?thesis using assms Inr False set_cached_succeeds[OF fs] fs
        by (auto simp: ParametricSystemBase_du_def)
    qed
  qed
qed

lemma u_then_du_one_solve:
  assumes "isinstance_ndarray c" and "nan_free c t" and "ParametricSystemBase_u C s c t = (Inr U, s1)"
  shows "\<exists>dU. ParametricSystemBase_du C s1 c t = (Inr dU, s1) \<and> solver_calls s1 \<le> solver_calls s + 1"
proof -
  from u_result_state[OF assms(3)] show ?thesis
  proof
    assume h: "is_cached s c t = Inr True \<and> s1 = s"
    then have "fixed_system s \<noteq> None"
      using assms(3) by (auto simp: ParametricSystemBase_u_def split: option.splits)
    then show ?thesis using h by (auto simp: ParametricSystemBase_du_def)
  next
    assume "is_cached s c t = Inr False \<and> (\<exists>fs. solve_outcome C s c t = Inr fs \<and> U = fs_u fs
            \<and> s1 = s\<lparr>last_controls := Val c, last_t := Val t, hf_calls := hf_calls s + 1,
                dhf_calls := dhf_calls s + 1, solver_calls := solver_calls s + 1,
                fixed_system := Some fs, nz := fs_nz fs\<rparr>)"
    then obtain fs where s1: "s1 = s\<lparr>last_controls := Val c, last_t := Val t, hf_calls := hf_calls s + 1,
                dhf_calls := dhf_calls s + 1, solver_calls := solver_calls s + 1,
                fixed_system := Some fs, nz := fs_nz fs\<rparr>" by blast
    have "is_cached s1 c t = Inr True"
      using assms(1,2) by (intro is_cached_key) (simp_all add: s1)
    then show ?thesis by (simp add: ParametricSystemBase_du_def s1)
  qed
qed



text \<open>
  C1: on an instance built by \<open>ParametricSystemWithFunctions.__init__\<close>, which assigns
  neither \<open>_last_controls\<close> nor \<open>_last_t\<close>, the first call of \<open>u\<close> or \<open>du\<close> with a
  numpy array raises \<open>AttributeError\<close> inside \<open>_is_cached\<close>: no Hamiltonian builder and
  no solver is called, and the instance is left as it was.  (On an instance whose key
  attributes are assigned and which holds a solve result, \<open>cache_hit_iff\<close> gives the
  equivalence of a hit with an equal key, \<open>miss_calls_hook\<close> the fresh solve on a miss and
  \<open>u_then_du_one_solve\<close> the single solve of \<open>u\<close> followed by \<open>du\<close>.)
\<close>

theorem first_call_on_ParametricSystemWithFunctions_raises:
  "ParametricSystemBase_u (ParametricSystemWithFunctions_class hf dhf parameters solver)
       (ParametricSystemWithFunctions_init n w) (NdArray xs) t
     = (Inl AttributeError, ParametricSystemWithFunctions_init n w)
   \<and> ParametricSystemBase_du (ParametricSystemWithFunctions_class hf dhf parameters solver)
       (ParametricSystemWithFunctions_init n w) (NdArray xs) t
     = (Inl AttributeError, ParametricSystemWithFunctions_init n w)"
  by (simp add: ParametricSystemBase_u_def ParametricSystemBase_du_def is_cached_def
      ParametricSystemWithFunctions_init_def new_object_def)





subsection \<open>Return values of OperatorDistance and the state of the cache\<close>



















subsection \<open>is\_unitary\<close>

lemma ncols_square: "\<forall>r\<in>set u. length r = length u \<Longrightarrow> ncols u = length u"
  by (cases u) (simp_all add: ncols_def)

lemma length_adjoint: "length (adjoint m) = ncols m"
  by (simp add: adjoint_def)

lemma adjoint_nth: "j < ncols m \<Longrightarrow> i < length m \<Longrightarrow> adjoint m ! j ! i = cnj (m ! i ! j)"
  by (simp add: adjoint_def)

lemma length_mat_mul: "length (mat_mul a b) = length a"
  by (simp add: mat_mul_def)

lemma ncols_mat_mul: "ncols (mat_mul a b) = (if a = [] then 0 else ncols b)"
  by (cases a) (simp_all add: mat_mul_def ncols_def upt_conv_Cons del: upt_Suc)

lemma mat_mul_nth:
  "i < length a \<Longrightarrow> j < ncols b \<Longrightarrow> mat_mul a b ! i ! j = (\<Sum>k<length b. a ! i ! k * b ! k ! j)"
  by (simp add: mat_mul_def interv_sum_list_conv_sum_set_nat atLeast0LessThan)

lemma eye_nth: "i < n \<Longrightarrow> j < n \<Longrightarrow> eye n ! i ! j = (if i = j then 1 else 0)"
  by (simp add: eye_def)

lemma length_eye: "length (eye n) = n"
  by (simp add: eye_def)

lemma ncols_eye: "ncols (eye n) = n"
  by (cases n) (simp_all add: eye_def ncols_def upt_conv_Cons del: upt_Suc)

lemma gram_nth:
  assumes "\<forall>r\<in>set u. length r = length u" and "i < length u" and "j < length u"
  shows "mat_mul (adjoint u) u ! i ! j = (\<Sum>k<length u. cnj (u ! k ! i) * u ! k ! j)"
  using assms by (simp add: mat_mul_nth length_adjoint ncols_square adjoint_nth)

lemma is_unitary_square:
  assumes "\<forall>r\<in>set u. length r = length u"
  shows "is_unitary u tol =
     Inr (\<forall>i<length u. \<forall>j<length u.
            cmod ((\<Sum>k<length u. cnj (u ! k ! i) * u ! k ! j) - (if i = j then 1 else 0))
              \<le> tol + rtol_default * (if i = j then 1 else 0))"
proof -
  let ?n = "length u"
  let ?g = "mat_mul (adjoint u) u"
  have l: "length ?g = ?n" "ncols ?g = ?n"
    using assms by (auto simp: length_mat_mul ncols_mat_mul length_adjoint ncols_square adjoint_def)
  have "is_unitary u tol = Inr (list_all (\<lambda>i. list_all (\<lambda>j. isclose (?g ! i ! j) (eye ?n ! i ! j) tol) [0..<?n]) [0..<?n])"
    by (auto simp: is_unitary_def np_allclose_def l length_eye ncols_eye broadcast_dim_def list_all_iff)
  also have "\<dots> = Inr (\<forall>i<?n. \<forall>j<?n. isclose (?g ! i ! j) (eye ?n ! i ! j) tol)"
    by (auto simp: list_all_iff)
  also have "\<dots> = Inr (\<forall>i<?n. \<forall>j<?n.
            cmod ((\<Sum>k<?n. cnj (u ! k ! i) * u ! k ! j) - (if i = j then 1 else 0))
              \<le> tol + rtol_default * (if i = j then 1 else 0))"
    using assms by (auto simp: gram_nth eye_nth isclose_def)
  finally show ?thesis .
qed


lemma is_unitary_eye:
  assumes "0 \<le> tol"
  shows "is_unitary (eye n) tol = Inr True"
proof -
  have sq: "\<forall>r\<in>set (eye n). length r = length (eye n)"
    by (auto simp: eye_def)
  have g: "(\<Sum>k<n. cnj (eye n ! k ! i) * eye n ! k ! j) = (if i = j then 1 else 0)" if "i < n" "j < n" for i j
  proof (cases "i = j")
    case True
    have "(\<Sum>k<n. cnj (eye n ! k ! i) * eye n ! k ! j) = (\<Sum>k<n. if k = i then 1 else 0)"
      using that True by (intro sum.cong) (auto simp: eye_nth)
    also have "\<dots> = 1"
      using that by simp
    finally show ?thesis using True by simp
  next
    case False
    have "(\<Sum>k<n. cnj (eye n ! k ! i) * eye n ! k ! j) = 0"
      using that False by (intro sum.neutral) (auto simp: eye_nth)
    then show ?thesis using False by simp
  qed
  have "is_unitary (eye n) tol = Inr (\<forall>i<n. \<forall>j<n. (0::real) \<le> tol + rtol_default * (if i = j then 1 else 0))"
    unfolding is_unitary_square[OF sq] length_eye using g by auto
  also have "\<dots> = Inr True"
    using assms by (simp add: rtol_default_def)
  finally show ?thesis .
qed

text \<open>
  C5: \<open>is_unitary\<close> with the default tolerance \<open>1e-10\<close> returns true on the
  one-by-one matrix \<open>[[1.000001]]\<close>, although the entry of \<open>adjoint(U)\<cdot>U\<close> differs
  from the entry 1 of the identity by more than \<open>1e-10\<close> (by about \<open>2e-6\<close>): only
  \<open>atol\<close> is passed to \<open>numpy.allclose\<close>, whose relative tolerance \<open>rtol = 1e-05\<close>
  stays in force on the diagonal.  (\<open>is_unitary_square\<close> states the test the code
  performs on a square matrix, \<open>is_unitary_eye\<close> that the identity passes.)
\<close>

theorem is_unitary_accepts_diagonal_deviation:
  "is_unitary_default [[1 + 1 / 10 ^ 6]] = Inr True
   \<and> cmod (mat_mul (adjoint [[1 + 1 / 10 ^ 6]]) [[1 + 1 / 10 ^ 6]] ! 0 ! 0 - eye 1 ! 0 ! 0) > 1 / 10 ^ 10"
proof -
  have sq: "\<forall>r\<in>set [[1 + 1 / 10 ^ 6 :: complex]]. length r = length [[1 + 1 / 10 ^ 6 :: complex]]"
    by simp
  have v: "cnj (1 + 1 / 10 ^ 6) * (1 + 1 / 10 ^ 6) - (1 :: complex) = complex_of_real (2000001 / 10 ^ 12)"
    by (simp add: complex_eq_iff field_simps)
  have a: "is_unitary_default [[1 + 1 / 10 ^ 6]] = Inr True"
    unfolding is_unitary_default_def is_unitary_square[OF sq]
    by (simp add: v rtol_default_def del: of_real_divide of_real_numeral of_real_power)
  have g: "mat_mul (adjoint [[1 + 1 / 10 ^ 6]]) [[1 + 1 / 10 ^ 6]] ! 0 ! 0 = cnj (1 + 1 / 10 ^ 6) * (1 + 1 / 10 ^ 6)"
    using gram_nth[OF sq, of 0 0] by simp
  have e: "eye 1 ! 0 ! 0 = 1" by (simp add: eye_nth)
  show ?thesis
    unfolding g e v using a by (simp del: of_real_divide of_real_numeral of_real_power)
qed

subsection \<open>The inner product and the norm\<close>

lemma product_v_Nil [simp]: "product_v [] b = 0" "product_v a [] = 0"
  by (simp_all add: product_v_def)

lemma product_v_Cons [simp]: "product_v (x # a) (y # b) = cnj x * y + product_v a b"
  by (simp add: product_v_def)

lemma length_vsub [simp]: "length (vsub q w) = min (length q) (length w)"
  by (simp add: vsub_def)

lemma length_smult [simp]: "length (smult c w) = length w"
  by (simp add: smult_def)

lemma length_sdiv [simp]: "length (sdiv q c) = length q"
  by (simp add: sdiv_def)

lemma vsub_nth: "k < length q \<Longrightarrow> k < length w \<Longrightarrow> vsub q w ! k = q ! k - w ! k"
  by (simp add: vsub_def)

lemma smult_nth: "k < length w \<Longrightarrow> smult c w ! k = c * w ! k"
  by (simp add: smult_def)

lemma sdiv_nth: "k < length q \<Longrightarrow> sdiv q c ! k = q ! k / c"
  by (simp add: sdiv_def)

lemma product_v_smult_right: "product_v a (smult c w) = c * product_v a w"
proof (induction a arbitrary: w)
  case Nil
  then show ?case by simp
next
  case (Cons x a)
  then show ?case by (cases w) (simp_all add: smult_def algebra_simps)
qed

lemma product_v_sdiv_right: "product_v a (sdiv q c) = product_v a q / c"
proof (induction a arbitrary: q)
  case Nil
  then show ?case by simp
next
  case (Cons x a)
  then show ?case by (cases q) (simp_all add: sdiv_def add_divide_distrib)
qed

lemma product_v_cnj: "cnj (product_v a b) = product_v b a"
proof (induction a arbitrary: b)
  case Nil
  then show ?case by simp
next
  case (Cons x a)
  then show ?case by (cases b) (simp_all add: algebra_simps)
qed

lemma product_v_sdiv_left: "product_v (sdiv q c) b = product_v q b / cnj c"
proof -
  have "product_v (sdiv q c) b = cnj (product_v b (sdiv q c))"
    by (simp add: product_v_cnj)
  also have "\<dots> = cnj (product_v b q) / cnj c"
    by (simp add: product_v_sdiv_right)
  finally show ?thesis by (simp add: product_v_cnj)
qed

lemma product_v_vsub_right:
  "length a = length q \<Longrightarrow> length q = length w \<Longrightarrow>
   product_v a (vsub q w) = product_v a q - product_v a w"
proof (induction a q w rule: list_induct3)
  case Nil
  then show ?case by (simp add: vsub_def)
next
  case (Cons x a y q z w)
  then show ?case by (simp add: vsub_def algebra_simps)
qed

lemma product_v_self: "product_v a a = complex_of_real (\<Sum>x\<leftarrow>a. (cmod x)\<^sup>2)"
proof (induction a)
  case Nil
  then show ?case by simp
next
  case (Cons x a)
  have "complex_of_real ((cmod x)\<^sup>2) = x * cnj x"
    by (rule complex_norm_square)
  then have "cnj x * x = complex_of_real ((cmod x)\<^sup>2)"
    by (simp only: mult.commute)
  then show ?case using Cons by (simp del: of_real_power)
qed

lemma sum_squares_nonneg: "0 \<le> (\<Sum>x\<leftarrow>a. (cmod x)\<^sup>2)"
  by (rule sum_list_nonneg) auto

lemma sum_squares_eq_0: "(\<Sum>x\<leftarrow>a. (cmod x)\<^sup>2) = 0 \<longleftrightarrow> (\<forall>x\<in>set a. x = 0)"
  by (induction a) (auto simp: add_nonneg_eq_0_iff sum_squares_nonneg)

lemma product_v_self_eq_0: "product_v a a = 0 \<longleftrightarrow> (\<forall>x\<in>set a. x = 0)"
  by (simp add: product_v_self sum_squares_eq_0)

lemma norm_v_real: "norm_v a = complex_of_real (sqrt (\<Sum>x\<leftarrow>a. (cmod x)\<^sup>2))"
  by (simp add: norm_v_def product_v_self sum_squares_nonneg)

lemma norm_v_eq_0: "norm_v a = 0 \<longleftrightarrow> (\<forall>x\<in>set a. x = 0)"
  by (simp add: norm_v_def product_v_self_eq_0)

lemma norm_v_square: "cnj (norm_v a) * norm_v a = product_v a a"
proof -
  have "cnj (norm_v a) * norm_v a = complex_of_real (sqrt (\<Sum>x\<leftarrow>a. (cmod x)\<^sup>2) * sqrt (\<Sum>x\<leftarrow>a. (cmod x)\<^sup>2))"
    by (simp only: norm_v_real complex_cnj_complex_of_real of_real_mult)
  also have "sqrt (\<Sum>x\<leftarrow>a. (cmod x)\<^sup>2) * sqrt (\<Sum>x\<leftarrow>a. (cmod x)\<^sup>2) = (\<Sum>x\<leftarrow>a. (cmod x)\<^sup>2)"
    using sum_squares_nonneg[of a] by simp
  finally show ?thesis by (simp only: product_v_self)
qed

lemma product_v_normalised:
  assumes "norm_v a \<noteq> 0"
  shows "product_v (sdiv a (norm_v a)) (sdiv a (norm_v a)) = 1"
proof -
  have "product_v (sdiv a (norm_v a)) (sdiv a (norm_v a)) = product_v a a / (cnj (norm_v a) * norm_v a)"
    by (simp add: product_v_sdiv_left product_v_sdiv_right)
  also have "\<dots> = product_v a a / product_v a a"
    by (simp only: norm_v_square)
  also have "\<dots> = 1"
    using assms by (simp add: norm_v_eq_0 product_v_self_eq_0)
  finally show ?thesis .
qed

lemma norm_v_normalised: "norm_v a \<noteq> 0 \<Longrightarrow> norm_v (sdiv a (norm_v a)) = 1"
  by (simp add: norm_v_def[of "sdiv a (norm_v a)"] product_v_normalised)

subsection \<open>One residual of the modified Gram-Schmidt procedure\<close>

lemma mgs_step_Nil [simp]: "mgs_step [] v = v"
  by (simp add: mgs_step_def)

lemma mgs_step_snoc: "mgs_step (bs @ [b]) v = vsub (mgs_step bs v) (smult (product_v b (mgs_step bs v)) b)"
  by (simp add: mgs_step_def)

lemma mgs_step_length:
  "\<forall>b\<in>set bs. length b = d \<Longrightarrow> length v = d \<Longrightarrow> length (mgs_step bs v) = d"
  by (induction bs rule: rev_induct) (simp_all add: mgs_step_snoc)

lemma orthonormal_Nil [simp]: "orthonormal []"
  by (simp add: orthonormal_def)

lemma orthonormal_snoc:
  "orthonormal (bs @ [b]) \<longleftrightarrow>
     orthonormal bs \<and> product_v b b = 1
     \<and> (\<forall>i<length bs. product_v (bs ! i) b = 0 \<and> product_v b (bs ! i) = 0)"
  (is "?l \<longleftrightarrow> ?r")
proof
  assume l: ?l
  have a: "product_v ((bs @ [b]) ! i) ((bs @ [b]) ! j) = (if i = j then 1 else 0)"
    if "i < Suc (length bs)" "j < Suc (length bs)" for i j
    using l that by (simp add: orthonormal_def)
  have "orthonormal bs"
    unfolding orthonormal_def
  proof (intro allI impI)
    fix i j assume "i < length bs" "j < length bs"
    then show "product_v (bs ! i) (bs ! j) = (if i = j then 1 else 0)"
      using a[of i j] by (simp add: nth_append)
  qed
  moreover have "product_v b b = 1"
    using a[of "length bs" "length bs"] by simp
  moreover have "\<forall>i<length bs. product_v (bs ! i) b = 0 \<and> product_v b (bs ! i) = 0"
  proof (intro allI impI)
    fix i assume i: "i < length bs"
    show "product_v (bs ! i) b = 0 \<and> product_v b (bs ! i) = 0"
      using a[of i "length bs"] a[of "length bs" i] i by (simp add: nth_append)
  qed
  ultimately show ?r by simp
next
  assume r: ?r
  show ?l
    unfolding orthonormal_def
  proof (intro allI impI)
    fix i j assume "i < length (bs @ [b])" "j < length (bs @ [b])"
    then consider "i < length bs" "j < length bs" | "i < length bs" "j = length bs"
      | "i = length bs" "j < length bs" | "i = length bs" "j = length bs"
      by fastforce
    then show "product_v ((bs @ [b]) ! i) ((bs @ [b]) ! j) = (if i = j then 1 else 0)"
    proof cases
      case 1
      then show ?thesis using r by (simp add: nth_append orthonormal_def)
    next
      case 2
      then show ?thesis using r by (simp add: nth_append)
    next
      case 3
      then show ?thesis using r by (simp add: nth_append)
    next
      case 4
      then show ?thesis using r by simp
    qed
  qed
qed

lemma mgs_step_orthogonal:
  assumes "orthonormal bs" and "\<forall>b\<in>set bs. length b = d" and "length v = d"
  shows "\<forall>i<length bs. product_v (bs ! i) (mgs_step bs v) = 0"
  using assms(1,2)
proof (induction bs rule: rev_induct)
  case Nil
  then show ?case by simp
next
  case (snoc b bs)
  let ?q = "mgs_step bs v"
  let ?r = "product_v b ?q"
  have on: "orthonormal bs" "product_v b b = 1"
      "\<forall>i<length bs. product_v (bs ! i) b = 0 \<and> product_v b (bs ! i) = 0"
    using snoc.prems(1) by (simp_all add: orthonormal_snoc)
  have len: "\<forall>b\<in>set bs. length b = d" "length b = d"
    using snoc.prems(2) by simp_all
  have lq: "length ?q = d"
    using len(1) assms(3) by (rule mgs_step_length)
  have ih: "\<forall>i<length bs. product_v (bs ! i) ?q = 0"
    using snoc.IH on(1) len(1) by simp
  show ?case
  proof (intro allI impI)
    fix i assume "i < length (bs @ [b])"
    then consider "i < length bs" | "i = length bs" by fastforce
    then show "product_v ((bs @ [b]) ! i) (mgs_step (bs @ [b]) v) = 0"
    proof cases
      case 1
      then have lb: "length (bs ! i) = d" using len(1) by simp
      have "product_v (bs ! i) (vsub ?q (smult ?r b)) = product_v (bs ! i) ?q - ?r * product_v (bs ! i) b"
        using lb lq len(2) by (simp add: product_v_vsub_right product_v_smult_right)
      then show ?thesis using 1 ih on(3) by (simp add: nth_append mgs_step_snoc)
    next
      case 2
      have "product_v b (vsub ?q (smult ?r b)) = ?r - ?r * product_v b b"
        using lq len(2) by (simp add: product_v_vsub_right product_v_smult_right)
      then show ?thesis using 2 on(2) by (simp add: mgs_step_snoc)
    qed
  qed
qed

lemma mgs_step_affine:
  assumes "\<forall>b\<in>set bs. in_span d ps b" and "length v = d"
  shows "\<exists>c :: nat \<Rightarrow> complex. \<forall>k<d. mgs_step bs v ! k = v ! k - (\<Sum>i<length ps. c i * ps ! i ! k)"
  using assms(1)
proof (induction bs rule: rev_induct)
  case Nil
  show ?case
    by (rule exI[of _ "\<lambda>i. 0"]) simp
next
  case (snoc b bs)
  let ?q = "mgs_step bs v"
  let ?r = "product_v b ?q"
  have sp: "\<forall>b\<in>set bs. in_span d ps b" "in_span d ps b"
    using snoc.prems by simp_all
  obtain c where c: "\<forall>k<d. ?q ! k = v ! k - (\<Sum>i<length ps. c i * ps ! i ! k)"
    using snoc.IH sp(1) by blast
  obtain cb where cb: "length b = d" "\<forall>k<d. b ! k = (\<Sum>i<length ps. cb i * ps ! i ! k)"
    using sp(2) unfolding in_span_def by blast
  have len: "\<forall>b\<in>set bs. length b = d"
    using sp(1) by (simp add: in_span_def)
  have lq: "length ?q = d"
    using len assms(2) by (rule mgs_step_length)
  define c' where "c' i = c i + ?r * cb i" for i
  have "\<forall>k<d. mgs_step (bs @ [b]) v ! k = v ! k - (\<Sum>i<length ps. c' i * ps ! i ! k)"
    unfolding c'_def
  proof (intro allI impI)
    fix k assume k: "k < d"
    have "mgs_step (bs @ [b]) v ! k = ?q ! k - ?r * b ! k"
      using k lq cb(1) by (simp add: mgs_step_snoc vsub_nth smult_nth)
    also have "\<dots> = v ! k - (\<Sum>i<length ps. c i * ps ! i ! k) - ?r * (\<Sum>i<length ps. cb i * ps ! i ! k)"
      using c cb(2) k by simp
    also have "\<dots> = v ! k - (\<Sum>i<length ps. (c i + ?r * cb i) * ps ! i ! k)"
      by (simp add: distrib_right sum.distrib sum_distrib_left mult.assoc)
    finally show "mgs_step (bs @ [b]) v ! k = v ! k - (\<Sum>i<length ps. (c i + ?r * cb i) * ps ! i ! k)" .
  qed
  then show ?case by blast
qed

lemma sum_snoc_rows:
  "(\<Sum>i<Suc (length ps). c i * (ps @ [v]) ! i ! k) = (\<Sum>i<length ps. c i * ps ! i ! k) + c (length ps) * v ! k"
proof -
  have "(\<Sum>i<length ps. c i * (ps @ [v]) ! i ! k) = (\<Sum>i<length ps. c i * ps ! i ! k)"
    by (intro sum.cong) (simp_all add: nth_append)
  then show ?thesis by simp
qed

lemma linearly_independent_snoc_residual:
  assumes "linearly_independent d (ps @ [v])" and "length v = d"
      and "\<forall>b\<in>set bs. in_span d ps b"
  shows "norm_v (mgs_step bs v) \<noteq> 0"
proof
  assume z: "norm_v (mgs_step bs v) = 0"
  have len: "\<forall>b\<in>set bs. length b = d"
    using assms(3) by (simp add: in_span_def)
  have lq: "length (mgs_step bs v) = d"
    using len assms(2) by (rule mgs_step_length)
  obtain c where c: "\<forall>k<d. mgs_step bs v ! k = v ! k - (\<Sum>i<length ps. c i * ps ! i ! k)"
    using mgs_step_affine[OF assms(3,2)] by blast
  have zero: "\<forall>k<d. mgs_step bs v ! k = 0"
    using z lq by (simp add: norm_v_eq_0)
  define c' where "c' i = (if i < length ps then c i else - 1)" for i
  have "\<forall>k<d. (\<Sum>i<length (ps @ [v]). c' i * (ps @ [v]) ! i ! k) = 0"
  proof (intro allI impI)
    fix k assume k: "k < d"
    have "(\<Sum>i<length ps. c' i * ps ! i ! k) = (\<Sum>i<length ps. c i * ps ! i ! k)"
      by (intro sum.cong) (simp_all add: c'_def)
    then have "(\<Sum>i<Suc (length ps). c' i * (ps @ [v]) ! i ! k) = (\<Sum>i<length ps. c i * ps ! i ! k) - v ! k"
      unfolding sum_snoc_rows by (simp add: c'_def)
    then show "(\<Sum>i<length (ps @ [v]). c' i * (ps @ [v]) ! i ! k) = 0"
      using c zero k by simp
  qed
  then have "\<forall>i<length (ps @ [v]). c' i = 0"
    using assms(1) unfolding linearly_independent_def by blast
  then have "c' (length ps) = 0" by simp
  then show False by (simp add: c'_def)
qed

lemma linearly_independent_append:
  assumes "linearly_independent d (ps @ qs)"
  shows "linearly_independent d ps"
  unfolding linearly_independent_def
proof (intro allI impI)
  fix c :: "nat \<Rightarrow> complex" and i
  assume z: "\<forall>k<d. (\<Sum>i<length ps. c i * ps ! i ! k) = 0" and i: "i < length ps"
  define c' where "c' i = (if i < length ps then c i else 0)" for i
  have "\<forall>k<d. (\<Sum>i<length (ps @ qs). c' i * (ps @ qs) ! i ! k) = 0"
  proof (intro allI impI)
    fix k assume k: "k < d"
    have "(\<Sum>i<length (ps @ qs). c' i * (ps @ qs) ! i ! k) = (\<Sum>i<length ps. c' i * (ps @ qs) ! i ! k)"
      by (intro sum.mono_neutral_right) (auto simp: c'_def)
    also have "\<dots> = (\<Sum>i<length ps. c i * ps ! i ! k)"
      by (intro sum.cong) (simp_all add: c'_def nth_append)
    finally show "(\<Sum>i<length (ps @ qs). c' i * (ps @ qs) ! i ! k) = 0"
      using z k by simp
  qed
  then have "\<forall>i<length (ps @ qs). c' i = 0"
    using assms unfolding linearly_independent_def by blast
  then show "c i = 0" using i by (auto simp: c'_def split: if_splits)
qed

lemma in_span_snoc:
  assumes "in_span d ps w"
  shows "in_span d (ps @ [v]) w"
proof -
  obtain c where c: "length w = d" "\<forall>k<d. w ! k = (\<Sum>i<length ps. c i * ps ! i ! k)"
    using assms unfolding in_span_def by blast
  define c' where "c' i = (if i < length ps then c i else 0)" for i
  have "\<forall>k<d. w ! k = (\<Sum>i<length (ps @ [v]). c' i * (ps @ [v]) ! i ! k)"
  proof (intro allI impI)
    fix k assume k: "k < d"
    have "(\<Sum>i<length ps. c' i * ps ! i ! k) = (\<Sum>i<length ps. c i * ps ! i ! k)"
      by (intro sum.cong) (simp_all add: c'_def)
    then have "(\<Sum>i<Suc (length ps). c' i * (ps @ [v]) ! i ! k) = (\<Sum>i<length ps. c i * ps ! i ! k)"
      unfolding sum_snoc_rows by (simp add: c'_def)
    then show "w ! k = (\<Sum>i<length (ps @ [v]). c' i * (ps @ [v]) ! i ! k)"
      using c(2) k by simp
  qed
  then show ?thesis using c(1) unfolding in_span_def by blast
qed

lemma in_span_normalised_residual:
  assumes "\<forall>b\<in>set bs. in_span d ps b" and "length v = d"
  shows "in_span d (ps @ [v]) (sdiv (mgs_step bs v) r)"
proof -
  have len: "\<forall>b\<in>set bs. length b = d"
    using assms(1) by (simp add: in_span_def)
  have lq: "length (mgs_step bs v) = d"
    using len assms(2) by (rule mgs_step_length)
  obtain c where c: "\<forall>k<d. mgs_step bs v ! k = v ! k - (\<Sum>i<length ps. c i * ps ! i ! k)"
    using mgs_step_affine[OF assms] by blast
  define c' where "c' i = (if i < length ps then - c i / r else 1 / r)" for i
  have "\<forall>k<d. sdiv (mgs_step bs v) r ! k = (\<Sum>i<length (ps @ [v]). c' i * (ps @ [v]) ! i ! k)"
  proof (intro allI impI)
    fix k assume k: "k < d"
    have "(\<Sum>i<length ps. c' i * ps ! i ! k) = (\<Sum>i<length ps. (- c i / r) * ps ! i ! k)"
      by (intro sum.cong) (simp_all add: c'_def)
    also have "\<dots> = - (\<Sum>i<length ps. c i * ps ! i ! k) / r"
      by (simp add: sum_divide_distrib sum_negf)
    finally have "(\<Sum>i<Suc (length ps). c' i * (ps @ [v]) ! i ! k)
        = - (\<Sum>i<length ps. c i * ps ! i ! k) / r + v ! k / r"
      unfolding sum_snoc_rows by (simp add: c'_def)
    also have "\<dots> = (v ! k - (\<Sum>i<length ps. c i * ps ! i ! k)) / r"
      by (simp add: diff_divide_distrib)
    finally show "sdiv (mgs_step bs v) r ! k = (\<Sum>i<length (ps @ [v]). c' i * (ps @ [v]) ! i ! k)"
      using c k lq by (simp add: sdiv_nth)
  qed
  then show ?thesis using lq unfolding in_span_def by auto
qed

subsection \<open>gram\_schmidt\<close>

lemma mgs_independent:
  assumes "linearly_independent d (ps @ vs)" and "\<forall>v\<in>set vs. length v = d"
      and "orthonormal bs" and "\<forall>b\<in>set bs. in_span d ps b" and "length bs = length ps"
  shows "\<exists>bs'. mgs bs vs = Inr bs' \<and> orthonormal bs' \<and> length bs' = length ps + length vs
            \<and> (\<forall>b\<in>set bs'. length b = d)"
  using assms
proof (induction vs arbitrary: ps bs)
  case Nil
  then show ?case by (simp add: in_span_def)
next
  case (Cons v vs)
  let ?q = "mgs_step bs v"
  let ?b = "sdiv ?q (norm_v ?q)"
  have lv: "length v = d" using Cons.prems(2) by simp
  have len: "\<forall>b\<in>set bs. length b = d"
    using Cons.prems(4) by (simp add: in_span_def)
  have lq: "length ?q = d"
    using len lv by (rule mgs_step_length)
  have "linearly_independent d ((ps @ [v]) @ vs)"
    using Cons.prems(1) by simp
  then have li: "linearly_independent d (ps @ [v])"
    by (rule linearly_independent_append)
  have nz: "norm_v ?q \<noteq> 0"
    using li lv Cons.prems(4) by (rule linearly_independent_snoc_residual)
  have orth: "\<forall>i<length bs. product_v (bs ! i) ?q = 0"
    using Cons.prems(3) len lv by (rule mgs_step_orthogonal)
  have on: "orthonormal (bs @ [?b])"
    unfolding orthonormal_snoc
  proof (intro conjI allI impI)
    show "orthonormal bs" by (rule Cons.prems(3))
    show "product_v ?b ?b = 1" using nz by (rule product_v_normalised)
  next
    fix i assume i: "i < length bs"
    show "product_v (bs ! i) ?b = 0"
      using orth i by (simp add: product_v_sdiv_right)
    have "product_v ?q (bs ! i) = cnj (product_v (bs ! i) ?q)"
      by (simp add: product_v_cnj)
    then show "product_v ?b (bs ! i) = 0"
      using orth i by (simp add: product_v_sdiv_left)
  qed
  have sp: "\<forall>b\<in>set (bs @ [?b]). in_span d (ps @ [v]) b"
    using Cons.prems(4) in_span_snoc[of d ps _ v] in_span_normalised_residual[OF Cons.prems(4) lv, of "norm_v ?q"]
    by auto
  have "\<exists>bs'. mgs (bs @ [?b]) vs = Inr bs' \<and> orthonormal bs' \<and> length bs' = length (ps @ [v]) + length vs
            \<and> (\<forall>b\<in>set bs'. length b = d)"
  proof (rule Cons.IH)
    show "linearly_independent d ((ps @ [v]) @ vs)" using Cons.prems(1) by simp
    show "\<forall>v\<in>set vs. length v = d" using Cons.prems(2) by simp
    show "orthonormal (bs @ [?b])" by (rule on)
    show "\<forall>b\<in>set (bs @ [?b]). in_span d (ps @ [v]) b" by (rule sp)
    show "length (bs @ [?b]) = length (ps @ [v])" using Cons.prems(5) by simp
  qed
  then show ?case using nz by (simp add: Let_def)
qed

lemma gs_inner_mgs_step: "j \<le> length R \<Longrightarrow> gs_inner R j v = mgs_step (take j R) v"
proof (induction j)
  case 0
  then show ?case by (simp add: gs_inner_def)
next
  case (Suc j)
  then have "gs_inner R j v = mgs_step (take j R) v" by simp
  moreover have "take (Suc j) R = take j R @ [R ! j]"
    using Suc.prems by (simp add: take_Suc_conv_app_nth)
  ultimately show ?case
    by (simp add: gs_inner_def mgs_step_def Let_def)
qed

lemma gs_outer_mgs:
  assumes "length R = length vecs"
  shows "j \<le> length vecs \<Longrightarrow> gs_outer vecs [j..<length vecs] R = mgs (take j R) (drop j vecs)"
  using assms
proof (induction "length vecs - j" arbitrary: j R)
  case 0
  then show ?case by simp
next
  case (Suc m)
  then have j: "j < length vecs" by simp
  have u: "[j..<length vecs] = j # [Suc j..<length vecs]"
    using j by (simp add: upt_conv_Cons)
  have d: "drop j vecs = vecs ! j # drop (Suc j) vecs"
    using j by (simp add: Cons_nth_drop_Suc)
  let ?q = "gs_inner R j (vecs ! j)"
  have q: "?q = mgs_step (take j R) (vecs ! j)"
    using j Suc.prems(2) by (simp add: gs_inner_mgs_step)
  let ?R = "R[j := sdiv ?q (norm_v ?q)]"
  have t: "take (Suc j) ?R = take j R @ [sdiv ?q (norm_v ?q)]"
    using j Suc.prems(2) by (simp add: take_Suc_conv_app_nth)
  have ih: "gs_outer vecs [Suc j..<length vecs] ?R = mgs (take (Suc j) ?R) (drop (Suc j) vecs)"
    using Suc.hyps(1)[of "Suc j" ?R] Suc.hyps(2) j Suc.prems(2) by simp
  show ?case
    unfolding u d using ih t q by (simp add: Let_def)
qed

lemma gram_schmidt_mgs: "vecs \<noteq> [] \<Longrightarrow> gram_schmidt vecs = mgs [] vecs"
proof -
  assume ne: "vecs \<noteq> []"
  then obtain v vs where v: "vecs = v # vs" by (cases vecs) auto
  let ?R = "(zeros_like vecs)[0 := sdiv (vecs ! 0) (norm_v (vecs ! 0))]"
  have l: "length ?R = length vecs" by (simp add: zeros_like_def)
  have "gs_outer vecs [1..<length vecs] ?R = mgs (take 1 ?R) (drop 1 vecs)"
    using gs_outer_mgs[OF l, of 1] ne by (simp add: Suc_le_eq)
  moreover have "take 1 ?R = [sdiv v (norm_v v)]"
    by (simp add: v zeros_like_def)
  ultimately show ?thesis
    by (simp add: gram_schmidt_def Let_def v)
qed


lemma mgs_error: "mgs bs vs = Inl e \<Longrightarrow> e = ArithmeticError"
  by (induction vs arbitrary: bs) (auto simp: Let_def split: if_splits)













subsection \<open>Raising is linear dependence\<close>

text \<open>
  Over exact arithmetic the residual of a row is zero exactly when the row is a linear
  combination of the rows before it, so that \<open>gram_schmidt\<close> raises on an array with
  rows exactly when its rows are linearly dependent.
\<close>

lemma product_v_sum:
  assumes "length a = d" and "length b = d"
  shows "product_v a b = (\<Sum>k<d. cnj (a ! k) * b ! k)"
proof -
  have "product_v a b = (\<Sum>k = 0..<length (map2 (\<lambda>x y. cnj x * y) a b). map2 (\<lambda>x y. cnj x * y) a b ! k)"
    unfolding product_v_def by (rule sum_list_sum_nth)
  also have "\<dots> = (\<Sum>k = 0..<d. cnj (a ! k) * b ! k)"
    using assms by (intro sum.cong) simp_all
  finally show ?thesis by (simp add: atLeast0LessThan)
qed

lemma in_span_member:
  assumes "i < length bs" and "length (bs ! i) = d"
  shows "in_span d bs (bs ! i)"
proof -
  have "\<forall>k<d. bs ! i ! k = (\<Sum>j<length bs. (if j = i then 1 else 0) * bs ! j ! k)"
  proof (intro allI impI)
    fix k
    have "(\<Sum>j<length bs. (if j = i then 1 else 0) * bs ! j ! k) = (\<Sum>j<length bs. if j = i then bs ! j ! k else 0)"
      by (intro sum.cong) simp_all
    also have "\<dots> = bs ! i ! k"
      using assms(1) by simp
    finally show "bs ! i ! k = (\<Sum>j<length bs. (if j = i then 1 else 0) * bs ! j ! k)" by simp
  qed
  then show ?thesis
    unfolding in_span_def using assms(2) by (intro conjI exI[of _ "\<lambda>j. if j = i then 1 else 0"]) simp_all
qed

lemma in_span_rows:
  assumes "\<forall>b\<in>set bs. length b = d"
  shows "\<forall>b\<in>set bs. in_span d bs b"
  using assms in_span_member by (metis in_set_conv_nth)

lemma mgs_step_in_span:
  assumes "\<forall>b\<in>set bs. length b = d" and "in_span d bs w"
  shows "in_span d bs (mgs_step bs w)"
proof -
  have lw: "length w = d" using assms(2) by (simp add: in_span_def)
  obtain a where a: "\<forall>k<d. w ! k = (\<Sum>i<length bs. a i * bs ! i ! k)"
    using assms(2) unfolding in_span_def by blast
  obtain c where c: "\<forall>k<d. mgs_step bs w ! k = w ! k - (\<Sum>i<length bs. c i * bs ! i ! k)"
    using mgs_step_affine[OF in_span_rows[OF assms(1)] lw] by blast
  define e where "e i = a i - c i" for i
  have "\<forall>k<d. mgs_step bs w ! k = (\<Sum>i<length bs. e i * bs ! i ! k)"
    using a c by (simp add: e_def left_diff_distrib sum_subtractf)
  moreover have "length (mgs_step bs w) = d"
    using assms(1) lw by (rule mgs_step_length)
  ultimately show ?thesis unfolding in_span_def by blast
qed

lemma in_span_orthogonal_zero:
  assumes "in_span d bs q" and "\<forall>b\<in>set bs. length b = d"
      and "\<forall>i<length bs. product_v (bs ! i) q = 0"
  shows "\<forall>x\<in>set q. x = 0"
proof -
  have lq: "length q = d" using assms(1) by (simp add: in_span_def)
  obtain a where a: "\<forall>k<d. q ! k = (\<Sum>i<length bs. a i * bs ! i ! k)"
    using assms(1) unfolding in_span_def by blast
  have "product_v q q = (\<Sum>k<d. cnj (q ! k) * q ! k)"
    using lq by (simp add: product_v_sum)
  also have "\<dots> = (\<Sum>k<d. (\<Sum>i<length bs. cnj (a i) * (cnj (bs ! i ! k) * q ! k)))"
  proof (intro sum.cong refl)
    fix k assume "k \<in> {..<d}"
    then have "cnj (q ! k) = (\<Sum>i<length bs. cnj (a i) * cnj (bs ! i ! k))"
      using a by simp
    then show "cnj (q ! k) * q ! k = (\<Sum>i<length bs. cnj (a i) * (cnj (bs ! i ! k) * q ! k))"
      by (simp add: sum_distrib_right mult.assoc)
  qed
  also have "\<dots> = (\<Sum>i<length bs. (\<Sum>k<d. cnj (a i) * (cnj (bs ! i ! k) * q ! k)))"
    by (rule sum.swap)
  also have "\<dots> = (\<Sum>i<length bs. cnj (a i) * product_v (bs ! i) q)"
  proof (intro sum.cong refl)
    fix i assume "i \<in> {..<length bs}"
    then have "length (bs ! i) = d" using assms(2) by simp
    then show "(\<Sum>k<d. cnj (a i) * (cnj (bs ! i ! k) * q ! k)) = cnj (a i) * product_v (bs ! i) q"
      using lq by (simp add: product_v_sum sum_distrib_left)
  qed
  also have "\<dots> = 0"
    using assms(3) by simp
  finally show ?thesis by (simp add: product_v_self_eq_0)
qed

lemma residual_zero_in_span:
  assumes "orthonormal bs" and "\<forall>b\<in>set bs. length b = d" and "in_span d bs w"
  shows "norm_v (mgs_step bs w) = 0"
proof -
  have lw: "length w = d" using assms(3) by (simp add: in_span_def)
  have "\<forall>x\<in>set (mgs_step bs w). x = 0"
    using mgs_step_in_span[OF assms(2,3)] assms(2) mgs_step_orthogonal[OF assms(1,2) lw]
    by (rule in_span_orthogonal_zero)
  then show ?thesis by (simp add: norm_v_eq_0)
qed

lemma in_span_trans:
  assumes "\<forall>p\<in>set ps. in_span d bs p" and "in_span d ps w"
  shows "in_span d bs w"
proof -
  obtain c where c: "length w = d" "\<forall>k<d. w ! k = (\<Sum>i<length ps. c i * ps ! i ! k)"
    using assms(2) unfolding in_span_def by blast
  have "\<forall>i\<in>{..<length ps}. \<exists>a. \<forall>k<d. ps ! i ! k = (\<Sum>j<length bs. a j * bs ! j ! k)"
    using assms(1) unfolding in_span_def by simp
  then obtain A where A: "\<forall>i\<in>{..<length ps}. \<forall>k<d. ps ! i ! k = (\<Sum>j<length bs. A i j * bs ! j ! k)"
    using bchoice[of "{..<length ps}" "\<lambda>i a. \<forall>k<d. ps ! i ! k = (\<Sum>j<length bs. a j * bs ! j ! k)"] by blast
  define e where "e j = (\<Sum>i<length ps. c i * A i j)" for j
  have "\<forall>k<d. w ! k = (\<Sum>j<length bs. e j * bs ! j ! k)"
  proof (intro allI impI)
    fix k assume k: "k < d"
    have "w ! k = (\<Sum>i<length ps. c i * (\<Sum>j<length bs. A i j * bs ! j ! k))"
      using c(2) A k by simp
    also have "\<dots> = (\<Sum>i<length ps. (\<Sum>j<length bs. c i * A i j * bs ! j ! k))"
      by (simp add: sum_distrib_left mult.assoc)
    also have "\<dots> = (\<Sum>j<length bs. (\<Sum>i<length ps. c i * A i j * bs ! j ! k))"
      by (rule sum.swap)
    also have "\<dots> = (\<Sum>j<length bs. e j * bs ! j ! k)"
      by (simp add: e_def sum_distrib_right)
    finally show "w ! k = (\<Sum>j<length bs. e j * bs ! j ! k)" .
  qed
  then show ?thesis using c(1) unfolding in_span_def by blast
qed

lemma linearly_independent_snoc:
  assumes "linearly_independent d ps" and "length v = d" and "\<not> in_span d ps v"
  shows "linearly_independent d (ps @ [v])"
  unfolding linearly_independent_def
proof (intro allI impI)
  fix c :: "nat \<Rightarrow> complex" and i
  assume z: "\<forall>k<d. (\<Sum>i<length (ps @ [v]). c i * (ps @ [v]) ! i ! k) = 0" and i: "i < length (ps @ [v])"
  have z': "\<forall>k<d. (\<Sum>i<length ps. c i * ps ! i ! k) + c (length ps) * v ! k = 0"
  proof (intro allI impI)
    fix k assume "k < d"
    then have "(\<Sum>i<length (ps @ [v]). c i * (ps @ [v]) ! i ! k) = 0"
      using z by blast
    moreover have "length (ps @ [v]) = Suc (length ps)" by simp
    ultimately have "(\<Sum>i<Suc (length ps). c i * (ps @ [v]) ! i ! k) = 0"
      by (simp only:)
    then show "(\<Sum>i<length ps. c i * ps ! i ! k) + c (length ps) * v ! k = 0"
      by (simp only: sum_snoc_rows)
  qed
  have last: "c (length ps) = 0"
  proof (rule ccontr)
    assume nz: "c (length ps) \<noteq> 0"
    define e where "e i = - c i / c (length ps)" for i
    have "\<forall>k<d. v ! k = (\<Sum>i<length ps. e i * ps ! i ! k)"
    proof (intro allI impI)
      fix k assume k: "k < d"
      have "c (length ps) * v ! k = - (\<Sum>i<length ps. c i * ps ! i ! k)"
        using z' k by (simp add: add_eq_0_iff)
      then have "v ! k = - (\<Sum>i<length ps. c i * ps ! i ! k) / c (length ps)"
        using nz by (simp add: field_simps)
      also have "\<dots> = (\<Sum>i<length ps. e i * ps ! i ! k)"
        by (simp add: e_def sum_divide_distrib sum_negf)
      finally show "v ! k = (\<Sum>i<length ps. e i * ps ! i ! k)" .
    qed
    then have "in_span d ps v" using assms(2) unfolding in_span_def by blast
    then show False using assms(3) by simp
  qed
  then have "\<forall>k<d. (\<Sum>i<length ps. c i * ps ! i ! k) = 0"
    using z' by simp
  then have "\<forall>i<length ps. c i = 0"
    using assms(1) unfolding linearly_independent_def by blast
  then show "c i = 0" using last i by (cases "i < length ps") (simp_all add: less_Suc_eq)
qed


lemma orthonormal_extend:
  assumes "orthonormal bs" and "\<forall>b\<in>set bs. length b = d" and "length v = d"
      and "norm_v (mgs_step bs v) \<noteq> 0"
  shows "orthonormal (bs @ [sdiv (mgs_step bs v) (norm_v (mgs_step bs v))])"
proof -
  let ?q = "mgs_step bs v"
  let ?b = "sdiv ?q (norm_v ?q)"
  have orth: "\<forall>i<length bs. product_v (bs ! i) ?q = 0"
    using assms(1,2,3) by (rule mgs_step_orthogonal)
  show ?thesis
    unfolding orthonormal_snoc
  proof (intro conjI allI impI)
    show "orthonormal bs" by (rule assms(1))
    show "product_v ?b ?b = 1" using assms(4) by (rule product_v_normalised)
  next
    fix i assume i: "i < length bs"
    show "product_v (bs ! i) ?b = 0"
      using orth i by (simp add: product_v_sdiv_right)
    have "product_v ?q (bs ! i) = cnj (product_v (bs ! i) ?q)"
      by (simp add: product_v_cnj)
    then show "product_v ?b (bs ! i) = 0"
      using orth i by (simp add: product_v_sdiv_left)
  qed
qed

lemma input_in_span_extended:
  assumes "\<forall>b\<in>set bs. length b = d" and "length v = d" and "r \<noteq> 0"
  shows "in_span d (bs @ [sdiv (mgs_step bs v) r]) v"
proof -
  let ?q = "mgs_step bs v"
  have lq: "length ?q = d" using assms(1,2) by (rule mgs_step_length)
  obtain c where c: "\<forall>k<d. ?q ! k = v ! k - (\<Sum>i<length bs. c i * bs ! i ! k)"
    using mgs_step_affine[OF in_span_rows[OF assms(1)] assms(2)] by blast
  define e where "e i = (if i < length bs then c i else r)" for i
  have "\<forall>k<d. v ! k = (\<Sum>i<length (bs @ [sdiv ?q r]). e i * (bs @ [sdiv ?q r]) ! i ! k)"
  proof (intro allI impI)
    fix k assume k: "k < d"
    have "(\<Sum>i<length bs. e i * bs ! i ! k) = (\<Sum>i<length bs. c i * bs ! i ! k)"
      by (intro sum.cong) (simp_all add: e_def)
    then have "(\<Sum>i<Suc (length bs). e i * (bs @ [sdiv ?q r]) ! i ! k)
        = (\<Sum>i<length bs. c i * bs ! i ! k) + r * (sdiv ?q r ! k)"
      unfolding sum_snoc_rows by (simp add: e_def)
    also have "\<dots> = (\<Sum>i<length bs. c i * bs ! i ! k) + ?q ! k"
      using k lq assms(3) by (simp add: sdiv_nth)
    also have "\<dots> = v ! k"
      using c k by simp
    finally show "v ! k = (\<Sum>i<length (bs @ [sdiv ?q r]). e i * (bs @ [sdiv ?q r]) ! i ! k)"
      by simp
  qed
  then show ?thesis using assms(2) unfolding in_span_def by blast
qed

lemma mgs_success_independent:
  assumes "mgs bs vs = Inr bs'" and "linearly_independent d ps"
      and "\<forall>v\<in>set vs. length v = d" and "orthonormal bs" and "\<forall>b\<in>set bs. length b = d"
      and "\<forall>p\<in>set ps. in_span d bs p"
  shows "linearly_independent d (ps @ vs)"
  using assms
proof (induction vs arbitrary: ps bs)
  case Nil
  then show ?case by simp
next
  case (Cons v vs)
  let ?q = "mgs_step bs v"
  let ?b = "sdiv ?q (norm_v ?q)"
  have lv: "length v = d" using Cons.prems(3) by simp
  have nz: "norm_v ?q \<noteq> 0" and next_run: "mgs (bs @ [?b]) vs = Inr bs'"
    using Cons.prems(1) by (auto simp: Let_def split: if_splits)
  have lq: "length ?q = d" using Cons.prems(5) lv by (rule mgs_step_length)
  have "\<not> in_span d ps v"
  proof
    assume "in_span d ps v"
    then have "in_span d bs v" using Cons.prems(6) by (rule in_span_trans[rotated])
    then have "norm_v ?q = 0" using Cons.prems(4,5) by (intro residual_zero_in_span)
    then show False using nz by simp
  qed
  then have li: "linearly_independent d (ps @ [v])"
    using Cons.prems(2) lv by (intro linearly_independent_snoc)
  have "linearly_independent d ((ps @ [v]) @ vs)"
  proof (rule Cons.IH[OF next_run li])
    show "\<forall>v\<in>set vs. length v = d" using Cons.prems(3) by simp
    show "orthonormal (bs @ [?b])" using Cons.prems(4,5) lv nz by (rule orthonormal_extend)
    show "\<forall>b\<in>set (bs @ [?b]). length b = d" using Cons.prems(5) lq by simp
    show "\<forall>p\<in>set (ps @ [v]). in_span d (bs @ [?b]) p"
      using Cons.prems(6) in_span_snoc[of d bs _ ?b] input_in_span_extended[OF Cons.prems(5) lv nz]
      by auto
  qed
  then show ?case by simp
qed

lemma linearly_independent_Nil: "linearly_independent d []"
  by (simp add: linearly_independent_def)

lemma gram_schmidt_raises_iff_dependent:
  assumes "vecs \<noteq> []" and "\<forall>v\<in>set vecs. length v = d"
  shows "gram_schmidt vecs = Inl ArithmeticError \<longleftrightarrow> \<not> linearly_independent d vecs"
proof
  assume r: "gram_schmidt vecs = Inl ArithmeticError"
  show "\<not> linearly_independent d vecs"
  proof
    assume "linearly_independent d vecs"
    then have "\<exists>bs'. mgs [] vecs = Inr bs' \<and> orthonormal bs' \<and> length bs' = length ([] :: matrix) + length vecs
            \<and> (\<forall>b\<in>set bs'. length b = d)"
      using assms(2) by (intro mgs_independent) simp_all
    then show False using r assms(1) by (auto simp: gram_schmidt_mgs)
  qed
next
  assume n: "\<not> linearly_independent d vecs"
  show "gram_schmidt vecs = Inl ArithmeticError"
  proof (cases "mgs [] vecs")
    case (Inl e)
    then show ?thesis using mgs_error[OF Inl] assms(1) by (simp add: gram_schmidt_mgs)
  next
    case (Inr B)
    have "linearly_independent d ([] @ vecs)"
      using Inr linearly_independent_Nil assms(2) by (rule mgs_success_independent) simp_all
    then show ?thesis using n by simp
  qed
qed

end
